theory Spec2Isabelle
  imports Main
begin

section \<open>The match-3 board engine (functional variant, \<^verbatim>\<open>functional/src/board.ts\<close>)\<close>

text \<open>
  The board is a record of its dimensions and the array of tile pieces. JavaScript numbers
  are modelled as \<^typ>\<open>int\<close> (positions and dimensions are integers); a tile value of
  type \<^verbatim>\<open>T | undefined\<close> is an \<^typ>\<open>'a option\<close>, with \<^term>\<open>None\<close> for
  \<^verbatim>\<open>undefined\<close>. Mutation of the board is explicit state passing: every operation
  that writes a tile takes the board and returns the new one. An exception is a value
  \<^term>\<open>Inl e\<close> of a sum type.

  Every tile object is created once, by \<^verbatim>\<open>Init\<close>, with a position that no other
  tile has, and no operation writes a position; the array itself never changes its
  elements. A tile object is therefore identified by its position, and a list of tile
  objects is modelled as the list of their current field contents.
\<close>

subsection \<open>Data model\<close>

record Position =
  row :: int
  col :: int

record 'a Match =
  matched :: "'a option"
  positions :: "Position list"

datatype DIRECTION = UP | DOWN | LEFT | RIGHT

record 'a TilePiece =
  position :: Position
  val :: "'a option"

record 'a Board =
  width :: int
  height :: int
  tilePieces :: "'a TilePiece list"

text \<open>
  A board effect is \<^verbatim>\<open>{kind: 'Match', match}\<close> or \<^verbatim>\<open>{kind: 'Refill', board}\<close>.
  The \<^verbatim>\<open>board\<close> field of a refill is a reference to the one board object of the
  call (not a snapshot), so it carries nothing beyond the board the call returns.
\<close>

datatype 'a BoardEffect = MatchEffect "'a Match" | Refill

fun kind :: "'a BoardEffect \<Rightarrow> string" where
  "kind (MatchEffect m) = ''Match''"
| "kind Refill = ''Refill''"

record 'a MatchResult =
  boardEffects :: "'a BoardEffect list"
  matches :: "'a TilePiece list"

record 'a MoveResult =
  board :: "'a Board"
  effects :: "'a BoardEffect list"

datatype error = TypeError | EmptyQueue

text \<open>
  The generator \<^verbatim>\<open>{ next: () => T }\<close> is a stateful object: a state of type \<^typ>\<open>'g\<close>
  and a step function that yields the next tile value and the new state, or throws.
\<close>

type_synonym ('a, 'g) Generator = "'g \<Rightarrow> error + ('a \<times> 'g)"

subsection \<open>Grid store\<close>

definition FindTilePieceOnPosition :: "'a Board \<Rightarrow> Position \<Rightarrow> 'a TilePiece option" where
  "FindTilePieceOnPosition b p =
     find (\<lambda>element. col (position element) = col p \<and> row (position element) = row p)
       (tilePieces b)"

text \<open>The source's name notwithstanding, the result is true for a position inside the board.\<close>

definition IsPositionOutsideBoard :: "'a Board \<Rightarrow> Position \<Rightarrow> bool" where
  "IsPositionOutsideBoard b p =
     (if col p \<ge> width b \<or> col p < 0 then False
      else if row p \<ge> height b \<or> row p < 0 then False
      else True)"

definition tilePiece :: "'a Board \<Rightarrow> Position \<Rightarrow> error + 'a option" where
  "tilePiece b p =
     (if \<not> IsPositionOutsideBoard b p then Inr None
      else case FindTilePieceOnPosition b p of
             None \<Rightarrow> Inl TypeError
           | Some t \<Rightarrow> Inr (val t))"

text \<open>\<^verbatim>\<open>Array.prototype.indexOf\<close>: \<^term>\<open>None\<close> stands for the result \<^verbatim>\<open>-1\<close>.\<close>

fun indexOf :: "'b list \<Rightarrow> 'b option \<Rightarrow> nat option" where
  "indexOf [] searchElement = None"
| "indexOf (x # xs) searchElement =
     (if Some x = searchElement then Some 0 else map_option Suc (indexOf xs searchElement))"

text \<open>
  \<^verbatim>\<open>swapProperties(firstIndex, secondIndex, `value`)\<close>: both reads come first, and a read
  at index \<^verbatim>\<open>-1\<close> is a property access on \<^verbatim>\<open>undefined\<close>, which throws.
\<close>

definition swapProperties ::
  "'a TilePiece list \<Rightarrow> nat option \<Rightarrow> nat option \<Rightarrow> error + 'a TilePiece list" where
  "swapProperties pieces firstIndex secondIndex =
     (case firstIndex of
        None \<Rightarrow> Inl TypeError
      | Some i \<Rightarrow>
          (case secondIndex of
             None \<Rightarrow> Inl TypeError
           | Some j \<Rightarrow>
               (let firstPieceValue = val (pieces ! i);
                    secondPieceValue = val (pieces ! j);
                    pieces1 = pieces[i := (pieces ! i)\<lparr>val := secondPieceValue\<rparr>]
                in Inr (pieces1[j := (pieces1 ! j)\<lparr>val := firstPieceValue\<rparr>]))))"

definition SwapPieces :: "'a Board \<Rightarrow> Position \<Rightarrow> Position \<Rightarrow> error + 'a Board" where
  "SwapPieces b first second =
     (let firstPiece = FindTilePieceOnPosition b first;
          secondPiece = FindTilePieceOnPosition b second;
          firstIndex = indexOf (tilePieces b) firstPiece;
          secondIndex = indexOf (tilePieces b) secondPiece
      in case swapProperties (tilePieces b) firstIndex secondIndex of
           Inl e \<Rightarrow> Inl e
         | Inr pieces \<Rightarrow> Inr (b\<lparr>tilePieces := pieces\<rparr>))"

definition FindAllTilePiecesInColumn :: "'a Board \<Rightarrow> int \<Rightarrow> 'a TilePiece list" where
  "FindAllTilePiecesInColumn b columnIndex =
     filter (\<lambda>element. col (position element) = columnIndex) (tilePieces b)"

definition FindAllTilePiecesInRow :: "'a Board \<Rightarrow> int \<Rightarrow> 'a TilePiece list" where
  "FindAllTilePiecesInRow b rowIndex =
     filter (\<lambda>element. row (position element) = rowIndex) (tilePieces b)"

text \<open>The loop \<^verbatim>\<open>for (row = fromRow; row > 0; row--)\<close>, over the rows it visits.\<close>

fun ShiftElementsInColumn_loop :: "'a Board \<Rightarrow> int list \<Rightarrow> int \<Rightarrow> error + 'a Board" where
  "ShiftElementsInColumn_loop b [] c = Inr b"
| "ShiftElementsInColumn_loop b (r # rs) c =
     (case SwapPieces b \<lparr>row = r, col = c\<rparr> \<lparr>row = r - 1, col = c\<rparr> of
        Inl e \<Rightarrow> Inl e
      | Inr b' \<Rightarrow> ShiftElementsInColumn_loop b' rs c)"

definition ShiftElementsInColumn :: "'a Board \<Rightarrow> int \<Rightarrow> int \<Rightarrow> error + 'a Board" where
  "ShiftElementsInColumn b fromRow c =
     ShiftElementsInColumn_loop b (rev (map int [1..<nat (fromRow + 1)])) c"

subsection \<open>Match finder\<close>

definition FindNextPiecePosition :: "'a TilePiece \<Rightarrow> DIRECTION \<Rightarrow> Position" where
  "FindNextPiecePosition currentPiece direction =
     (let p0 = \<lparr>row = row (position currentPiece), col = col (position currentPiece)\<rparr>;
          p1 = (if direction = DOWN then p0\<lparr>row := row p0 + 1\<rparr> else p0);
          p2 = (if direction = UP then p1\<lparr>row := row p1 - 1\<rparr> else p1);
          p3 = (if direction = LEFT then p2\<lparr>col := col p2 - 1\<rparr> else p2);
          p4 = (if direction = RIGHT then p3\<lparr>col := col p3 + 1\<rparr> else p3)
      in p4)"

text \<open>
  Strictly beyond a position in a direction: the tiles a walk can still reach. Their
  number is the measure of the walk's recursion.
\<close>

fun beyond :: "DIRECTION \<Rightarrow> Position \<Rightarrow> Position \<Rightarrow> bool" where
  "beyond UP p q = (row q < row p)"
| "beyond DOWN p q = (row p < row q)"
| "beyond LEFT p q = (col q < col p)"
| "beyond RIGHT p q = (col p < col q)"

definition walk_measure :: "'a Board \<Rightarrow> 'a TilePiece option \<Rightarrow> DIRECTION \<Rightarrow> nat" where
  "walk_measure b currentPiece d =
     (case currentPiece of
        None \<Rightarrow> 0
      | Some piece \<Rightarrow>
          Suc (length (filter (\<lambda>t. beyond d (position piece) (position t)) (tilePieces b))))"

text \<open>
  \<^verbatim>\<open>CheckNeighbours\<close> pushes onto the one array \<^verbatim>\<open>matchingPieces\<close> that every
  recursive call shares and returns that array, so the result of the first call is the
  result of the innermost one.
\<close>

function CheckNeighbours ::
  "'a Board \<Rightarrow> 'a TilePiece option \<Rightarrow> 'a TilePiece list \<Rightarrow> 'a option \<Rightarrow> DIRECTION
   \<Rightarrow> 'a TilePiece list" where
  "CheckNeighbours b currentPiece matchingPieces v Direction =
     (case currentPiece of
        None \<Rightarrow> matchingPieces
      | Some piece \<Rightarrow>
          if val piece = v
          then CheckNeighbours b
                 (FindTilePieceOnPosition b (FindNextPiecePosition piece Direction))
                 (matchingPieces @ [piece]) v Direction
          else matchingPieces)"
  by pat_completeness auto
termination
proof (relation "measure (\<lambda>(b, currentPiece, matchingPieces, v, d). walk_measure b currentPiece d)")
  show "wf (measure (\<lambda>(b, currentPiece, matchingPieces, v, d). walk_measure b currentPiece d))"
    by simp
next
  fix b :: "'a Board" and currentPiece and matchingPieces :: "'a TilePiece list"
    and v :: "'a option" and Direction and piece :: "'a TilePiece"
  assume "currentPiece = Some piece" "val piece = v"
  have step: "walk_measure b (Some nextPiece) Direction < walk_measure b (Some piece) Direction"
    if found: "FindTilePieceOnPosition b (FindNextPiecePosition piece Direction) = Some nextPiece"
    for nextPiece
  proof -
    have "x \<in> set xs \<and> P x" if "find P xs = Some x" for P and x :: "'a TilePiece" and xs
      using that by (induction xs) (auto split: if_splits)
    with found have mem: "nextPiece \<in> set (tilePieces b)"
      and pos: "col (position nextPiece) = col (FindNextPiecePosition piece Direction)"
               "row (position nextPiece) = row (FindNextPiecePosition piece Direction)"
      unfolding FindTilePieceOnPosition_def by blast+
    let ?P = "\<lambda>t. beyond Direction (position nextPiece) (position t)"
    let ?Q = "\<lambda>t. beyond Direction (position piece) (position t)"
    have sub: "?P t \<Longrightarrow> ?Q t" for t :: "'a TilePiece"
      using pos by (cases Direction) (simp_all add: FindNextPiecePosition_def)
    have "?Q nextPiece"
      using pos by (cases Direction) (simp_all add: FindNextPiecePosition_def)
    moreover have "\<not> ?P nextPiece"
      by (cases Direction) simp_all
    moreover have "filter ?P (tilePieces b) = filter ?P (filter ?Q (tilePieces b))"
      using sub by (auto intro: filter_cong)
    ultimately have "length (filter ?P (tilePieces b)) < length (filter ?Q (tilePieces b))"
      using mem length_filter_less [of nextPiece "filter ?Q (tilePieces b)" ?P] by simp
    then show ?thesis by (simp add: walk_measure_def)
  qed
  show "((b, FindTilePieceOnPosition b (FindNextPiecePosition piece Direction),
          matchingPieces @ [piece], v, Direction),
         (b, currentPiece, matchingPieces, v, Direction))
        \<in> measure (\<lambda>(b, currentPiece, matchingPieces, v, d). walk_measure b currentPiece d)"
  proof (cases "FindTilePieceOnPosition b (FindNextPiecePosition piece Direction)")
    case None
    then show ?thesis
      using \<open>currentPiece = Some piece\<close> by (simp add: walk_measure_def)
  next
    case (Some nextPiece)
    then show ?thesis
      using \<open>currentPiece = Some piece\<close> step [OF Some] by simp
  qed
qed

declare CheckNeighbours.simps [simp del]

definition CreateBoardEffectForMatch :: "'a TilePiece list \<Rightarrow> 'a MatchResult" where
  "CreateBoardEffectForMatch matchedPieces =
     \<lparr>boardEffects =
        [MatchEffect
           \<lparr>matched = (case matchedPieces of [] \<Rightarrow> None | first # _ \<Rightarrow> val first),
            positions = map position matchedPieces\<rparr>],
      matches = matchedPieces\<rparr>"

definition AllNeighboursInRowCheck :: "'a Board \<Rightarrow> 'a TilePiece \<Rightarrow> 'a MatchResult" where
  "AllNeighboursInRowCheck b startPiece =
     (let leftSideElements =
            CheckNeighbours b
              (FindTilePieceOnPosition b (FindNextPiecePosition startPiece LEFT))
              [] (val startPiece) LEFT;
          rightSideElements =
            CheckNeighbours b
              (FindTilePieceOnPosition b (FindNextPiecePosition startPiece RIGHT))
              [] (val startPiece) RIGHT
      in if length leftSideElements + length rightSideElements + 1 \<ge> 3
         then CreateBoardEffectForMatch (leftSideElements @ [startPiece] @ rightSideElements)
         else \<lparr>boardEffects = [], matches = []\<rparr>)"

definition AllNeighboursInColCheck :: "'a Board \<Rightarrow> 'a TilePiece \<Rightarrow> 'a MatchResult" where
  "AllNeighboursInColCheck b startPiece =
     (let nextTopPosition = FindNextPiecePosition startPiece UP;
          pieceOnNextTopPosition = FindTilePieceOnPosition b nextTopPosition;
          topElements = CheckNeighbours b pieceOnNextTopPosition [] (val startPiece) UP;
          downElements =
            CheckNeighbours b
              (FindTilePieceOnPosition b (FindNextPiecePosition startPiece DOWN))
              [] (val startPiece) DOWN
      in if length topElements + length downElements + 1 \<ge> 3
         then CreateBoardEffectForMatch (topElements @ [startPiece] @ downElements)
         else \<lparr>boardEffects = [], matches = []\<rparr>)"

text \<open>
  The inner loop of both scans, \<^verbatim>\<open>for (const element of elements)\<close>: the state is the
  array \<^verbatim>\<open>checkedValues\<close> of the line and the two accumulators.
\<close>

fun scan_line ::
  "('a TilePiece \<Rightarrow> 'a MatchResult) \<Rightarrow> 'a TilePiece list \<Rightarrow> 'a option list \<Rightarrow> 'a MatchResult
   \<Rightarrow> 'a MatchResult" where
  "scan_line check [] checkedValues acc = acc"
| "scan_line check (element # rest) checkedValues acc =
     (if val element \<notin> set checkedValues
      then let result = check element
           in scan_line check rest (checkedValues @ [val element])
                \<lparr>boardEffects = boardEffects acc @ boardEffects result,
                 matches = matches acc @ matches result\<rparr>
      else scan_line check rest checkedValues acc)"

text \<open>The outer loops, over the line indices they visit, in the order they visit them.\<close>

fun scan_lines ::
  "(int \<Rightarrow> 'a TilePiece list) \<Rightarrow> ('a TilePiece \<Rightarrow> 'a MatchResult) \<Rightarrow> int list \<Rightarrow> 'a MatchResult
   \<Rightarrow> 'a MatchResult" where
  "scan_lines line check [] acc = acc"
| "scan_lines line check (i # is) acc =
     scan_lines line check is (scan_line check (line i) [] acc)"

definition FindAllRowMatches :: "'a Board \<Rightarrow> 'a MatchResult" where
  "FindAllRowMatches b =
     scan_lines (FindAllTilePiecesInRow b) (AllNeighboursInRowCheck b)
       (map int [0..<nat (height b)]) \<lparr>boardEffects = [], matches = []\<rparr>"

text \<open>\<^verbatim>\<open>for (let i = board.width; i >= 0; i--)\<close>: the indices width, ..., 0.\<close>

definition FindAllColumnMatches :: "'a Board \<Rightarrow> 'a MatchResult" where
  "FindAllColumnMatches b =
     scan_lines (FindAllTilePiecesInColumn b) (AllNeighboursInColCheck b)
       (rev (map int [0..<nat (width b + 1)])) \<lparr>boardEffects = [], matches = []\<rparr>"

subsection \<open>Move validator\<close>

text \<open>
  \<^verbatim>\<open>IsMoveLegal\<close> swaps on the board and swaps back; the model returns the board as the
  call leaves it together with the verdict.
\<close>

definition IsMoveLegal :: "'a Board \<Rightarrow> Position \<Rightarrow> Position \<Rightarrow> error + ('a Board \<times> bool)" where
  "IsMoveLegal b originalPosition newPosition =
     (if \<not> IsPositionOutsideBoard b originalPosition \<or> \<not> IsPositionOutsideBoard b newPosition
      then Inr (b, False)
      else if col originalPosition = col newPosition \<and> row originalPosition = row newPosition
      then Inr (b, False)
      else if col originalPosition \<noteq> col newPosition \<and> row originalPosition \<noteq> row newPosition
      then Inr (b, False)
      else case SwapPieces b originalPosition newPosition of
             Inl e \<Rightarrow> Inl e
           | Inr b1 \<Rightarrow>
               (let matchesInRows = FindAllRowMatches b1;
                    matchesInColumns = FindAllColumnMatches b1
                in case SwapPieces b1 originalPosition newPosition of
                     Inl e \<Rightarrow> Inl e
                   | Inr b2 \<Rightarrow>
                       if length (matches matchesInRows) = 0
                          \<and> length (matches matchesInColumns) = 0
                       then Inr (b2, False)
                       else Inr (b2, True)))"

definition canMove :: "'a Board \<Rightarrow> Position \<Rightarrow> Position \<Rightarrow> error + ('a Board \<times> bool)" where
  "canMove b originalPosition newPosition = IsMoveLegal b originalPosition newPosition"

subsection \<open>Resolver\<close>

text \<open>
  \<^verbatim>\<open>match.value = undefined\<close> for every tile object of the two lists: the tiles of the
  board at the positions of the matched pieces lose their value.
\<close>

definition MatchValuesRemoved ::
  "'a TilePiece list \<Rightarrow> 'a TilePiece list \<Rightarrow> 'a Board \<Rightarrow> 'a Board" where
  "MatchValuesRemoved matchesRows matchesColumn b =
     b\<lparr>tilePieces :=
         map (\<lambda>t. if position t \<in> set (map position (matchesRows @ matchesColumn))
                  then t\<lparr>val := None\<rparr> else t)
           (tilePieces b)\<rparr>"

text \<open>The assignment \<^verbatim>\<open>FindTilePieceOnPosition(board, p).value = v\<close>.\<close>

definition setValueOnPosition :: "'a Board \<Rightarrow> Position \<Rightarrow> 'a option \<Rightarrow> error + 'a Board" where
  "setValueOnPosition b p v =
     (case indexOf (tilePieces b) (FindTilePieceOnPosition b p) of
        None \<Rightarrow> Inl TypeError
      | Some i \<Rightarrow> Inr (b\<lparr>tilePieces := (tilePieces b)[i := (tilePieces b ! i)\<lparr>val := v\<rparr>]\<rparr>))"

text \<open>The body of the two loops of \<^verbatim>\<open>UpdateBoard\<close> at one cell.\<close>

definition UpdateBoard_cell ::
  "('a, 'g) Generator \<Rightarrow> int \<Rightarrow> int \<Rightarrow> 'a Board \<times> 'g \<Rightarrow> error + ('a Board \<times> 'g)" where
  "UpdateBoard_cell nxt r c s =
     (case s of (b, g) \<Rightarrow>
        (case FindTilePieceOnPosition b \<lparr>row = r, col = c\<rparr> of
           None \<Rightarrow> Inl TypeError
         | Some foundElement \<Rightarrow>
             if val foundElement = None
             then (case ShiftElementsInColumn b (row (position foundElement))
                          (col (position foundElement)) of
                     Inl e \<Rightarrow> Inl e
                   | Inr b1 \<Rightarrow>
                       (case nxt g of
                          Inl e \<Rightarrow> Inl e
                        | Inr (v, g') \<Rightarrow>
                            (case setValueOnPosition b1
                                    \<lparr>row = 0, col = col (position foundElement)\<rparr> (Some v) of
                               Inl e \<Rightarrow> Inl e
                             | Inr b2 \<Rightarrow> Inr (b2, g'))))
             else Inr (b, g)))"

fun UpdateBoard_cols ::
  "('a, 'g) Generator \<Rightarrow> int \<Rightarrow> int list \<Rightarrow> 'a Board \<times> 'g \<Rightarrow> error + ('a Board \<times> 'g)" where
  "UpdateBoard_cols nxt r [] s = Inr s"
| "UpdateBoard_cols nxt r (c # cs) s =
     (case UpdateBoard_cell nxt r c s of
        Inl e \<Rightarrow> Inl e
      | Inr s' \<Rightarrow> UpdateBoard_cols nxt r cs s')"

fun UpdateBoard_rows ::
  "('a, 'g) Generator \<Rightarrow> int list \<Rightarrow> 'a Board \<times> 'g \<Rightarrow> error + ('a Board \<times> 'g)" where
  "UpdateBoard_rows nxt [] s = Inr s"
| "UpdateBoard_rows nxt (r # rs) s =
     (case UpdateBoard_cols nxt r (map int [0..<nat (width (fst s))]) s of
        Inl e \<Rightarrow> Inl e
      | Inr s' \<Rightarrow> UpdateBoard_rows nxt rs s')"

text \<open>
  \<^verbatim>\<open>UpdateBoard\<close> up to its call of \<^verbatim>\<open>CheckBoard\<close>: the shift-and-refill pass over the
  grid. (The push of the refill effect and the call of \<^verbatim>\<open>CheckBoard\<close> are in
  \<open>CheckBoard\<close> below, the two functions being mutually recursive.)
\<close>

definition UpdateBoard_pass ::
  "('a, 'g) Generator \<Rightarrow> 'a Board \<Rightarrow> 'g \<Rightarrow> error + ('a Board \<times> 'g)" where
  "UpdateBoard_pass nxt b g = UpdateBoard_rows nxt (map int [0..<nat (height b)]) (b, g)"

text \<open>
  \<^verbatim>\<open>CheckBoard\<close> and the tail of \<^verbatim>\<open>UpdateBoard\<close>. The cascade need not end (a
  generator can feed it matches forever), so not returning is the value \<^term>\<open>None\<close>;
  \<^term>\<open>Some (Inl e)\<close> is a thrown exception and \<^term>\<open>Some (Inr r)\<close> a normal return with
  the generator's state, the board and the effects pushed so far.
\<close>

partial_function (option) CheckBoard ::
  "('a, 'g) Generator \<Rightarrow> 'a Board \<Rightarrow> 'g \<Rightarrow> 'a BoardEffect list
   \<Rightarrow> ('a TilePiece list \<Rightarrow> 'a TilePiece list \<Rightarrow> 'a Board \<Rightarrow> 'a Board)
   \<Rightarrow> (error + ('g \<times> 'a MoveResult)) option" where
  "CheckBoard nxt b generator effs removeMatchesFn =
     (let rowMatchResults = FindAllRowMatches b;
          columnMatchResults = FindAllColumnMatches b;
          effs1 = effs @ boardEffects rowMatchResults;
          effs2 = effs1 @ boardEffects columnMatchResults
      in if length (matches rowMatchResults) \<noteq> 0 \<or> length (matches columnMatchResults) \<noteq> 0
         then (case UpdateBoard_pass nxt
                      (removeMatchesFn (matches rowMatchResults) (matches columnMatchResults) b)
                      generator of
                 Inl e \<Rightarrow> Some (Inl e)
               | Inr (b', generator') \<Rightarrow>
                   CheckBoard nxt b' generator' (effs2 @ [Refill]) MatchValuesRemoved)
         else Some (Inr (generator, \<lparr>board = b, effects = effs2\<rparr>)))"

declare CheckBoard.simps [code]

definition move ::
  "('a, 'g) Generator \<Rightarrow> 'g \<Rightarrow> 'a Board \<Rightarrow> Position \<Rightarrow> Position
   \<Rightarrow> (error + ('g \<times> 'a MoveResult)) option" where
  "move nxt generator b originalPosition newPosition =
     (case IsMoveLegal b originalPosition newPosition of
        Inl e \<Rightarrow> Some (Inl e)
      | Inr (b0, legal) \<Rightarrow>
          if legal
          then (case SwapPieces b0 originalPosition newPosition of
                  Inl e \<Rightarrow> Some (Inl e)
                | Inr b1 \<Rightarrow> CheckBoard nxt b1 generator [] MatchValuesRemoved)
          else Some (Inr (generator, \<lparr>board = b0, effects = []\<rparr>)))"

subsection \<open>Construction\<close>

fun Init_cols ::
  "('a, 'g) Generator \<Rightarrow> int \<Rightarrow> int list \<Rightarrow> 'a TilePiece list \<times> 'g
   \<Rightarrow> error + ('a TilePiece list \<times> 'g)" where
  "Init_cols nxt r [] s = Inr s"
| "Init_cols nxt r (c # cs) s =
     (case s of (pieces, g) \<Rightarrow>
        (case nxt g of
           Inl e \<Rightarrow> Inl e
         | Inr (v, g') \<Rightarrow>
             Init_cols nxt r cs
               (pieces @ [\<lparr>position = \<lparr>row = r, col = c\<rparr>, val = Some v\<rparr>], g')))"

fun Init_rows ::
  "('a, 'g) Generator \<Rightarrow> int list \<Rightarrow> int \<Rightarrow> 'a TilePiece list \<times> 'g
   \<Rightarrow> error + ('a TilePiece list \<times> 'g)" where
  "Init_rows nxt [] w s = Inr s"
| "Init_rows nxt (r # rs) w s =
     (case Init_cols nxt r (map int [0..<nat w]) s of
        Inl e \<Rightarrow> Inl e
      | Inr s' \<Rightarrow> Init_rows nxt rs w s')"

definition Init ::
  "('a, 'g) Generator \<Rightarrow> 'g \<Rightarrow> int \<Rightarrow> int \<Rightarrow> error + ('a TilePiece list \<times> 'g)" where
  "Init nxt generator h w = Init_rows nxt (map int [0..<nat h]) w ([], generator)"

definition create ::
  "('a, 'g) Generator \<Rightarrow> 'g \<Rightarrow> int \<Rightarrow> int \<Rightarrow> error + ('a Board \<times> 'g)" where
  "create nxt generator w h =
     (case Init nxt generator h w of
        Inl e \<Rightarrow> Inl e
      | Inr (pieces, g') \<Rightarrow> Inr (\<lparr>width = w, height = h, tilePieces = pieces\<rparr>, g'))"

subsection \<open>The generators of the test suite\<close>

text \<open>\<^verbatim>\<open>GeneratorFake\<close>: a queue; \<^verbatim>\<open>next\<close> takes its head and throws on the empty queue.\<close>

fun GeneratorFake_next :: "('a, 'a list) Generator" where
  "GeneratorFake_next [] = Inl EmptyQueue"
| "GeneratorFake_next (v # upcoming) = Inr (v, upcoming)"

definition prepare :: "'a list \<Rightarrow> 'a list \<Rightarrow> 'a list" where
  "prepare upcoming e = upcoming @ e"


section \<open>Well-formed boards\<close>

text \<open>
  \<^verbatim>\<open>Init\<close> pushes the tiles row by row, each row by increasing column. A board is
  well formed when its tiles carry exactly these positions, in this order; every board
  that \<open>create\<close> returns is, and no operation changes a position.
\<close>

definition board_positions :: "int \<Rightarrow> int \<Rightarrow> Position list" where
  "board_positions h w =
     map (\<lambda>(r, c). \<lparr>row = int r, col = int c\<rparr>) (List.product [0..<nat h] [0..<nat w])"

definition wf_board :: "'a Board \<Rightarrow> bool" where
  "wf_board b = (map position (tilePieces b) = board_positions (height b) (width b))"

text \<open>The tile of a well-formed board at a row and a column.\<close>

definition tile_at :: "'a Board \<Rightarrow> int \<Rightarrow> int \<Rightarrow> 'a TilePiece" where
  "tile_at b r c = tilePieces b ! (nat r * nat (width b) + nat c)"

text \<open>The index of the first element with a property: what \<open>indexOf\<close> of a \<open>find\<close> is.\<close>

fun first_index :: "('b \<Rightarrow> bool) \<Rightarrow> 'b list \<Rightarrow> nat option" where
  "first_index P [] = None"
| "first_index P (x # xs) = (if P x then Some 0 else map_option Suc (first_index P xs))"

definition at_position :: "Position \<Rightarrow> 'a TilePiece \<Rightarrow> bool" where
  "at_position p element = (col (position element) = col p \<and> row (position element) = row p)"

section \<open>Runs of positions\<close>

text \<open>The position a number of steps from a position in a direction, and the positions
  of a run: the first \<open>n\<close> positions from \<open>p\<close> on, in the order of the direction.\<close>

fun step_position :: "DIRECTION \<Rightarrow> Position \<Rightarrow> nat \<Rightarrow> Position" where
  "step_position UP p i = \<lparr>row = row p - int i, col = col p\<rparr>"
| "step_position DOWN p i = \<lparr>row = row p + int i, col = col p\<rparr>"
| "step_position LEFT p i = \<lparr>row = row p, col = col p - int i\<rparr>"
| "step_position RIGHT p i = \<lparr>row = row p, col = col p + int i\<rparr>"

definition run_positions :: "DIRECTION \<Rightarrow> Position \<Rightarrow> nat \<Rightarrow> Position list" where
  "run_positions d p n = map (step_position d p) [0..<n]"

text \<open>
  A match effect along an axis of a board: at least three positions, consecutive in the
  direction from the first on, each inside the board and holding the matched value.
\<close>

definition axis_run :: "DIRECTION \<Rightarrow> 'a Board \<Rightarrow> 'a BoardEffect \<Rightarrow> bool" where
  "axis_run d b e =
     (\<exists>m p n. e = MatchEffect m \<and> 3 \<le> n \<and> positions m = run_positions d p n
        \<and> (\<forall>q \<in> set (positions m). IsPositionOutsideBoard b q \<and> tilePiece b q = Inr (matched m)))"

text \<open>
  The column scan as the specification words it for the valid columns only: the indices
  \<open>width - 1\<close> down to \<open>0\<close>.
\<close>

definition FindAllColumnMatches_valid :: "'a Board \<Rightarrow> 'a MatchResult" where
  "FindAllColumnMatches_valid b =
     scan_lines (FindAllTilePiecesInColumn b) (AllNeighboursInColCheck b)
       (rev (map int [0..<nat (width b)])) \<lparr>boardEffects = [], matches = []\<rparr>"

section \<open>Passes of the cascade\<close>

text \<open>Two boards with the same dimensions and the same positions, tile by tile.\<close>

definition same_frame :: "'a Board \<Rightarrow> 'a Board \<Rightarrow> bool" where
  "same_frame b b' =
     (map position (tilePieces b') = map position (tilePieces b)
      \<and> width b' = width b \<and> height b' = height b)"

text \<open>The terminal check of \<open>CheckBoard\<close>: neither scan has matched a tile.\<close>

definition no_match_found :: "'a Board \<Rightarrow> bool" where
  "no_match_found b =
     (matches (FindAllRowMatches b) = [] \<and> matches (FindAllColumnMatches b) = [])"

text \<open>
  A match effect along an axis, by its positions alone: a row match lists at least three
  positions by increasing column (direction \<open>RIGHT\<close>), a column match by increasing row
  (direction \<open>DOWN\<close>).
\<close>

definition match_along :: "DIRECTION \<Rightarrow> 'a BoardEffect \<Rightarrow> bool" where
  "match_along d e = (\<exists>m p n. e = MatchEffect m \<and> 3 \<le> n \<and> positions m = run_positions d p n)"

text \<open>
  The effects of one resolution pass: the row matches, then the column matches (at least
  one match in all), then one refill.
\<close>

definition pass_block :: "'a BoardEffect list \<Rightarrow> bool" where
  "pass_block blk =
     (\<exists>rs cs. blk = rs @ cs @ [Refill] \<and> rs @ cs \<noteq> []
        \<and> (\<forall>e \<in> set rs. match_along RIGHT e) \<and> (\<forall>e \<in> set cs. match_along DOWN e))"

text \<open>The cell of a board has a tile, and the tile has a value.\<close>

definition has_value_at :: "'a Board \<Rightarrow> int \<Rightarrow> int \<Rightarrow> bool" where
  "has_value_at b r c =
     (\<exists>t. FindTilePieceOnPosition b \<lparr>row = r, col = c\<rparr> = Some t \<and> val t \<noteq> None)"


section \<open>The object-oriented variant (\<^verbatim>\<open>oo/src/board.ts\<close>)\<close>

text \<open>
  The class \<^verbatim>\<open>Board\<close> keeps the height, the width and the tile pieces (the record
  \<^typ>\<open>'a Board\<close> above, here the field \<open>grid\<close>), its generator, its listeners and the
  flag \<^verbatim>\<open>isEventsEnabled\<close>. Every listener is called with every event, in the order of
  emission; the field \<open>events\<close> is the sequence of events a registered listener has been
  called with. A board event \<^verbatim>\<open>{kind, match?}\<close> is a board effect without the board.
  Names that the functional variant has too carry the suffix \<open>_oo\<close>.
\<close>

type_synonym 'a BoardEvent = "'a BoardEffect"

record ('a, 'g) BoardObject =
  grid :: "'a Board"
  boardGenerator :: 'g
  events :: "'a BoardEvent list"
  isEventsEnabled :: bool

definition IsPositionWithinBoard :: "'a Board \<Rightarrow> Position \<Rightarrow> bool" where
  "IsPositionWithinBoard b p =
     (if (row p < height b \<and> row p \<ge> 0) \<and> (col p < width b \<and> col p \<ge> 0) then True else False)"

definition FindTilePieceAtPosition :: "'a Board \<Rightarrow> Position \<Rightarrow> 'a TilePiece option" where
  "FindTilePieceAtPosition b positionOfTilePiece =
     find (\<lambda>e. row (position e) = row positionOfTilePiece
               \<and> col (position e) = col positionOfTilePiece)
       (tilePieces b)"

definition piece :: "'a Board \<Rightarrow> Position \<Rightarrow> error + 'a option" where
  "piece b p =
     (if \<not> IsPositionWithinBoard b p then Inr None
      else case FindTilePieceAtPosition b p of
             None \<Rightarrow> Inl TypeError
           | Some t \<Rightarrow> Inr (val t))"

definition SwapTilePieces :: "'a Board \<Rightarrow> Position \<Rightarrow> Position \<Rightarrow> error + 'a Board" where
  "SwapTilePieces b originalPosition newPosition =
     (let originalTilePiece = FindTilePieceAtPosition b originalPosition;
          newTilePiece = FindTilePieceAtPosition b newPosition;
          originalIndex = indexOf (tilePieces b) originalTilePiece;
          newIndex = indexOf (tilePieces b) newTilePiece
      in case swapProperties (tilePieces b) originalIndex newIndex of
           Inl e \<Rightarrow> Inl e
         | Inr pieces \<Rightarrow> Inr (b\<lparr>tilePieces := pieces\<rparr>))"

definition IsSameTile :: "Position \<Rightarrow> Position \<Rightarrow> bool" where
  "IsSameTile originalPosition positionToBeChecked =
     (if row originalPosition = row positionToBeChecked
         \<and> col originalPosition = col positionToBeChecked
      then True else False)"

definition IsTileSameRowOrColumn :: "Position \<Rightarrow> Position \<Rightarrow> bool" where
  "IsTileSameRowOrColumn originalPosition positionToBeChecked =
     (if row originalPosition \<noteq> row positionToBeChecked
         \<and> col originalPosition \<noteq> col positionToBeChecked
      then False else True)"

fun FindPositionOfNextTilePiece :: "'a TilePiece \<Rightarrow> DIRECTION \<Rightarrow> Position" where
  "FindPositionOfNextTilePiece originalTilePiece UP =
     \<lparr>row = row (position originalTilePiece) - 1, col = col (position originalTilePiece)\<rparr>"
| "FindPositionOfNextTilePiece originalTilePiece DOWN =
     \<lparr>row = row (position originalTilePiece) + 1, col = col (position originalTilePiece)\<rparr>"
| "FindPositionOfNextTilePiece originalTilePiece LEFT =
     \<lparr>row = row (position originalTilePiece), col = col (position originalTilePiece) - 1\<rparr>"
| "FindPositionOfNextTilePiece originalTilePiece RIGHT =
     \<lparr>row = row (position originalTilePiece), col = col (position originalTilePiece) + 1\<rparr>"

function NeighbourOfTilePieceCheck ::
  "'a Board \<Rightarrow> 'a TilePiece option \<Rightarrow> 'a TilePiece list \<Rightarrow> 'a option \<Rightarrow> DIRECTION
   \<Rightarrow> 'a TilePiece list" where
  "NeighbourOfTilePieceCheck b originalTilePiece TilePiecesMatched v directionToCheck =
     (case originalTilePiece of
        None \<Rightarrow> TilePiecesMatched
      | Some tile \<Rightarrow>
          if val tile = v
          then NeighbourOfTilePieceCheck b
                 (FindTilePieceAtPosition b (FindPositionOfNextTilePiece tile directionToCheck))
                 (TilePiecesMatched @ [tile]) v directionToCheck
          else TilePiecesMatched)"
  by pat_completeness auto
termination
proof (relation "measure (\<lambda>(b, originalTilePiece, matched, v, d). walk_measure b originalTilePiece d)")
  show "wf (measure (\<lambda>(b, originalTilePiece, matched, v, d). walk_measure b originalTilePiece d))"
    by simp
next
  fix b :: "'a Board" and originalTilePiece and TilePiecesMatched :: "'a TilePiece list"
    and v :: "'a option" and directionToCheck and tile :: "'a TilePiece"
  assume orig: "originalTilePiece = Some tile" and "val tile = v"
  let ?next = "FindTilePieceAtPosition b (FindPositionOfNextTilePiece tile directionToCheck)"
  have "walk_measure b ?next directionToCheck < walk_measure b (Some tile) directionToCheck"
  proof (cases ?next)
    case None
    then show ?thesis by (simp add: walk_measure_def)
  next
    case (Some neighbour)
    have "x \<in> set xs \<and> P x" if "find P xs = Some x" for P and x :: "'a TilePiece" and xs
      using that by (induction xs) (auto split: if_splits)
    with Some have mem: "neighbour \<in> set (tilePieces b)"
      and pos: "row (position neighbour) = row (FindPositionOfNextTilePiece tile directionToCheck)"
               "col (position neighbour) = col (FindPositionOfNextTilePiece tile directionToCheck)"
      unfolding FindTilePieceAtPosition_def by blast+
    let ?near = "\<lambda>t. beyond directionToCheck (position neighbour) (position t)"
    let ?far = "\<lambda>t. beyond directionToCheck (position tile) (position t)"
    have sub: "?near t \<Longrightarrow> ?far t" for t :: "'a TilePiece"
      using pos by (cases directionToCheck) simp_all
    have "?far neighbour"
      using pos by (cases directionToCheck) simp_all
    moreover have "\<not> ?near neighbour"
      by (cases directionToCheck) simp_all
    moreover have "filter ?near (tilePieces b) = filter ?near (filter ?far (tilePieces b))"
      using sub by (auto intro: filter_cong)
    ultimately have "length (filter ?near (tilePieces b)) < length (filter ?far (tilePieces b))"
      using mem length_filter_less [of neighbour "filter ?far (tilePieces b)" ?near] by simp
    then show ?thesis by (simp add: walk_measure_def Some)
  qed
  then show "((b, ?next, TilePiecesMatched @ [tile], v, directionToCheck),
              (b, originalTilePiece, TilePiecesMatched, v, directionToCheck))
             \<in> measure (\<lambda>(b, originalTilePiece, matched, v, d). walk_measure b originalTilePiece d)"
    using orig by simp
qed

declare NeighbourOfTilePieceCheck.simps [simp del]

text \<open>
  \<^verbatim>\<open>CallAllListenersOnMatch\<close>: the event the listeners are called with. The two checks
  return the tiles of the match; the events they emit, when events are enabled, are the
  \<open>boardEffects\<close> of the result.
\<close>

definition CallAllListenersOnMatch :: "'a TilePiece list \<Rightarrow> 'a BoardEvent list" where
  "CallAllListenersOnMatch tilePiecesInMatch =
     [MatchEffect
        \<lparr>matched = (case tilePiecesInMatch of [] \<Rightarrow> None | first # _ \<Rightarrow> val first),
         positions = map position tilePiecesInMatch\<rparr>]"

definition AllNeighboursInRowCheck_oo :: "bool \<Rightarrow> 'a Board \<Rightarrow> 'a TilePiece \<Rightarrow> 'a MatchResult" where
  "AllNeighboursInRowCheck_oo eventsEnabled b originalTilePiece =
     (let tilePiecesToTheLeft =
            NeighbourOfTilePieceCheck b
              (FindTilePieceAtPosition b (FindPositionOfNextTilePiece originalTilePiece LEFT))
              [] (val originalTilePiece) LEFT;
          tilePiecesToTheRight =
            NeighbourOfTilePieceCheck b
              (FindTilePieceAtPosition b (FindPositionOfNextTilePiece originalTilePiece RIGHT))
              [] (val originalTilePiece) RIGHT
      in if length tilePiecesToTheLeft + length tilePiecesToTheRight + 1 \<ge> 3
         then let tilePiecesInMatch = tilePiecesToTheLeft @ [originalTilePiece] @ tilePiecesToTheRight
              in \<lparr>boardEffects = (if eventsEnabled then CallAllListenersOnMatch tilePiecesInMatch else []),
                  matches = tilePiecesInMatch\<rparr>
         else \<lparr>boardEffects = [], matches = []\<rparr>)"

definition AllNeighboursInColCheck_oo :: "bool \<Rightarrow> 'a Board \<Rightarrow> 'a TilePiece \<Rightarrow> 'a MatchResult" where
  "AllNeighboursInColCheck_oo eventsEnabled b originalTilePiece =
     (let positionOfTilePieceAbove = FindPositionOfNextTilePiece originalTilePiece UP;
          tilePieceAbove = FindTilePieceAtPosition b positionOfTilePieceAbove;
          tilePiecesAbove =
            NeighbourOfTilePieceCheck b tilePieceAbove [] (val originalTilePiece) UP;
          tilePiecesBelow =
            NeighbourOfTilePieceCheck b
              (FindTilePieceAtPosition b (FindPositionOfNextTilePiece originalTilePiece DOWN))
              [] (val originalTilePiece) DOWN
      in if length tilePiecesAbove + length tilePiecesBelow + 1 \<ge> 3
         then let tilePiecesInMatch = tilePiecesAbove @ [originalTilePiece] @ tilePiecesBelow
              in \<lparr>boardEffects = (if eventsEnabled then CallAllListenersOnMatch tilePiecesInMatch else []),
                  matches = tilePiecesInMatch\<rparr>
         else \<lparr>boardEffects = [], matches = []\<rparr>)"

definition FindPiecesInRow :: "'a Board \<Rightarrow> int \<Rightarrow> 'a TilePiece list" where
  "FindPiecesInRow b index = filter (\<lambda>e. row (position e) = index) (tilePieces b)"

definition FindPiecesInCol :: "'a Board \<Rightarrow> int \<Rightarrow> 'a TilePiece list" where
  "FindPiecesInCol b index = filter (\<lambda>e. col (position e) = index) (tilePieces b)"

text \<open>
  The inner loop of \<^verbatim>\<open>FindRowMatches\<close> and \<^verbatim>\<open>FindColMatches\<close>: a tile is explored
  unless the matches found so far include it (the tile object, that is its position).
\<close>

fun scan_line_oo ::
  "('a TilePiece \<Rightarrow> 'a MatchResult) \<Rightarrow> 'a TilePiece list \<Rightarrow> 'a MatchResult \<Rightarrow> 'a MatchResult" where
  "scan_line_oo check [] acc = acc"
| "scan_line_oo check (tile # rest) acc =
     (if position tile \<notin> set (map position (matches acc))
      then let result = check tile
           in scan_line_oo check rest
                \<lparr>boardEffects = boardEffects acc @ boardEffects result,
                 matches = matches acc @ matches result\<rparr>
      else scan_line_oo check rest acc)"

fun scan_lines_oo ::
  "(int \<Rightarrow> 'a TilePiece list) \<Rightarrow> ('a TilePiece \<Rightarrow> 'a MatchResult) \<Rightarrow> int list \<Rightarrow> 'a MatchResult
   \<Rightarrow> 'a MatchResult" where
  "scan_lines_oo line check [] acc = acc"
| "scan_lines_oo line check (i # is) acc =
     scan_lines_oo line check is (scan_line_oo check (line i) acc)"

definition FindRowMatches :: "bool \<Rightarrow> 'a Board \<Rightarrow> 'a MatchResult" where
  "FindRowMatches eventsEnabled b =
     scan_lines_oo (FindPiecesInRow b) (AllNeighboursInRowCheck_oo eventsEnabled b)
       (map int [0..<nat (height b)]) \<lparr>boardEffects = [], matches = []\<rparr>"

definition FindColMatches :: "bool \<Rightarrow> 'a Board \<Rightarrow> 'a MatchResult" where
  "FindColMatches eventsEnabled b =
     scan_lines_oo (FindPiecesInCol b) (AllNeighboursInColCheck_oo eventsEnabled b)
       (rev (map int [0..<nat (width b + 1)])) \<lparr>boardEffects = [], matches = []\<rparr>"

text \<open>
  The operations on the object: each takes the object and returns it as the call leaves
  it, with the events it has emitted appended.
\<close>

definition emit :: "'a BoardEvent list \<Rightarrow> ('a, 'g) BoardObject \<Rightarrow> ('a, 'g) BoardObject" where
  "emit es this = this\<lparr>events := events this @ es\<rparr>"

definition IsAnyMatch :: "('a, 'g) BoardObject \<Rightarrow> ('a, 'g) BoardObject \<times> bool" where
  "IsAnyMatch this =
     (let rowMatchesList = FindRowMatches (isEventsEnabled this) (grid this);
          this1 = emit (boardEffects rowMatchesList) this;
          colMatchesList = FindColMatches (isEventsEnabled this1) (grid this1);
          this2 = emit (boardEffects colMatchesList) this1
      in if length (matches rowMatchesList) = 0 \<and> length (matches colMatchesList) = 0
         then (this2, False) else (this2, True))"

definition MoveResultInMatches ::
  "('a, 'g) BoardObject \<Rightarrow> Position \<Rightarrow> Position \<Rightarrow> error + (('a, 'g) BoardObject \<times> bool)" where
  "MoveResultInMatches this originalPosition newPosition =
     (case SwapTilePieces (grid this) originalPosition newPosition of
        Inl e \<Rightarrow> Inl e
      | Inr g1 \<Rightarrow>
          (case IsAnyMatch (this\<lparr>grid := g1\<rparr>) of
             (this1, isMatches) \<Rightarrow>
               (case SwapTilePieces (grid this1) newPosition originalPosition of
                  Inl e \<Rightarrow> Inl e
                | Inr g2 \<Rightarrow> Inr (this1\<lparr>grid := g2\<rparr>, isMatches))))"

definition IsMoveLegal_oo ::
  "('a, 'g) BoardObject \<Rightarrow> Position \<Rightarrow> Position \<Rightarrow> error + (('a, 'g) BoardObject \<times> bool)" where
  "IsMoveLegal_oo this originalPosition newPosition =
     (if IsSameTile originalPosition newPosition then Inr (this, False)
      else if \<not> IsTileSameRowOrColumn originalPosition newPosition then Inr (this, False)
      else if \<not> IsPositionWithinBoard (grid this) originalPosition
              \<or> \<not> IsPositionWithinBoard (grid this) newPosition
      then Inr (this, False)
      else MoveResultInMatches this originalPosition newPosition)"

definition canMove_oo ::
  "('a, 'g) BoardObject \<Rightarrow> Position \<Rightarrow> Position \<Rightarrow> error + (('a, 'g) BoardObject \<times> bool)" where
  "canMove_oo this originalPosition newPosition = IsMoveLegal_oo this originalPosition newPosition"

text \<open>\<^verbatim>\<open>DestroyMatchedTilePieces\<close>: the tiles of the two lists lose their value.\<close>

definition DestroyMatchedTilePieces ::
  "'a TilePiece list \<Rightarrow> 'a TilePiece list \<Rightarrow> 'a Board \<Rightarrow> 'a Board" where
  "DestroyMatchedTilePieces rowMatches colMatches b =
     b\<lparr>tilePieces :=
         map (\<lambda>t. if position t \<in> set (map position (rowMatches @ colMatches))
                  then t\<lparr>val := None\<rparr> else t)
           (tilePieces b)\<rparr>"

fun shiftElementsInColumn_loop :: "'a Board \<Rightarrow> int list \<Rightarrow> int \<Rightarrow> error + 'a Board" where
  "shiftElementsInColumn_loop b [] c = Inr b"
| "shiftElementsInColumn_loop b (r # rs) c =
     (case SwapTilePieces b \<lparr>row = r, col = c\<rparr> \<lparr>row = r - 1, col = c\<rparr> of
        Inl e \<Rightarrow> Inl e
      | Inr b' \<Rightarrow> shiftElementsInColumn_loop b' rs c)"

definition shiftElementsInColumn :: "'a Board \<Rightarrow> int \<Rightarrow> int \<Rightarrow> error + 'a Board" where
  "shiftElementsInColumn b originalRow c =
     shiftElementsInColumn_loop b (rev (map int [1..<nat (originalRow + 1)])) c"

definition setValueAtPosition :: "'a Board \<Rightarrow> Position \<Rightarrow> 'a option \<Rightarrow> error + 'a Board" where
  "setValueAtPosition b p v =
     (case indexOf (tilePieces b) (FindTilePieceAtPosition b p) of
        None \<Rightarrow> Inl TypeError
      | Some i \<Rightarrow> Inr (b\<lparr>tilePieces := (tilePieces b)[i := (tilePieces b ! i)\<lparr>val := v\<rparr>]\<rparr>))"

definition UpdateBoard_oo_cell ::
  "('a, 'g) Generator \<Rightarrow> int \<Rightarrow> int \<Rightarrow> 'a Board \<times> 'g \<Rightarrow> error + ('a Board \<times> 'g)" where
  "UpdateBoard_oo_cell nxt r c s =
     (case s of (b, g) \<Rightarrow>
        (case FindTilePieceAtPosition b \<lparr>row = r, col = c\<rparr> of
           None \<Rightarrow> Inl TypeError
         | Some currentTilePiece \<Rightarrow>
             if val currentTilePiece = None
             then (case shiftElementsInColumn b (row (position currentTilePiece))
                          (col (position currentTilePiece)) of
                     Inl e \<Rightarrow> Inl e
                   | Inr b1 \<Rightarrow>
                       (case nxt g of
                          Inl e \<Rightarrow> Inl e
                        | Inr (v, g') \<Rightarrow>
                            (case setValueAtPosition b1
                                    \<lparr>row = 0, col = col (position currentTilePiece)\<rparr> (Some v) of
                               Inl e \<Rightarrow> Inl e
                             | Inr b2 \<Rightarrow> Inr (b2, g'))))
             else Inr (b, g)))"

fun UpdateBoard_oo_cols ::
  "('a, 'g) Generator \<Rightarrow> int \<Rightarrow> int list \<Rightarrow> 'a Board \<times> 'g \<Rightarrow> error + ('a Board \<times> 'g)" where
  "UpdateBoard_oo_cols nxt r [] s = Inr s"
| "UpdateBoard_oo_cols nxt r (c # cs) s =
     (case UpdateBoard_oo_cell nxt r c s of
        Inl e \<Rightarrow> Inl e
      | Inr s' \<Rightarrow> UpdateBoard_oo_cols nxt r cs s')"

fun UpdateBoard_oo_rows ::
  "('a, 'g) Generator \<Rightarrow> int list \<Rightarrow> 'a Board \<times> 'g \<Rightarrow> error + ('a Board \<times> 'g)" where
  "UpdateBoard_oo_rows nxt [] s = Inr s"
| "UpdateBoard_oo_rows nxt (r # rs) s =
     (case UpdateBoard_oo_cols nxt r (map int [0..<nat (width (fst s))]) s of
        Inl e \<Rightarrow> Inl e
      | Inr s' \<Rightarrow> UpdateBoard_oo_rows nxt rs s')"

text \<open>
  \<^verbatim>\<open>UpdateBoard\<close> up to its call of \<^verbatim>\<open>CheckBoard\<close>: the listeners are called with
  the refill event first, then the grid is shifted and refilled.
\<close>

definition UpdateBoard_oo_pass ::
  "('a, 'g) Generator \<Rightarrow> ('a, 'g) BoardObject \<Rightarrow> error + ('a, 'g) BoardObject" where
  "UpdateBoard_oo_pass nxt this =
     (let this1 = emit [Refill] this
      in case UpdateBoard_oo_rows nxt (map int [0..<nat (height (grid this1))])
                (grid this1, boardGenerator this1) of
           Inl e \<Rightarrow> Inl e
         | Inr (b, g) \<Rightarrow> Inr (this1\<lparr>grid := b, boardGenerator := g\<rparr>))"

partial_function (option) CheckBoard_oo ::
  "('a, 'g) Generator \<Rightarrow> ('a, 'g) BoardObject \<Rightarrow> (error + ('a, 'g) BoardObject) option" where
  "CheckBoard_oo nxt this =
     (let rowMatches = FindRowMatches (isEventsEnabled this) (grid this);
          this1 = emit (boardEffects rowMatches) this;
          colMatches = FindColMatches (isEventsEnabled this1) (grid this1);
          this2 = emit (boardEffects colMatches) this1
      in if length (matches rowMatches) \<noteq> 0 \<or> length (matches colMatches) \<noteq> 0
         then (case UpdateBoard_oo_pass nxt
                      (this2\<lparr>grid := DestroyMatchedTilePieces (matches rowMatches)
                                        (matches colMatches) (grid this2)\<rparr>) of
                 Inl e \<Rightarrow> Some (Inl e)
               | Inr this3 \<Rightarrow> CheckBoard_oo nxt this3)
         else Some (Inr this2))"

declare CheckBoard_oo.simps [code]

text \<open>\<^verbatim>\<open>move\<close> returns \<^verbatim>\<open>null\<close>; what it leaves is the object.\<close>

definition move_oo ::
  "('a, 'g) Generator \<Rightarrow> ('a, 'g) BoardObject \<Rightarrow> Position \<Rightarrow> Position
   \<Rightarrow> (error + ('a, 'g) BoardObject) option" where
  "move_oo nxt this originalPosition newPosition =
     (case IsMoveLegal_oo this originalPosition newPosition of
        Inl e \<Rightarrow> Some (Inl e)
      | Inr (this0, legal) \<Rightarrow>
          if legal
          then (case SwapTilePieces (grid this0) originalPosition newPosition of
                  Inl e \<Rightarrow> Some (Inl e)
                | Inr b1 \<Rightarrow>
                    (case CheckBoard_oo nxt (this0\<lparr>isEventsEnabled := True, grid := b1\<rparr>) of
                       None \<Rightarrow> None
                     | Some (Inl e) \<Rightarrow> Some (Inl e)
                     | Some (Inr this1) \<Rightarrow> Some (Inr (this1\<lparr>isEventsEnabled := False\<rparr>))))
          else Some (Inr this0))"

text \<open>
  The constructor: \<^verbatim>\<open>CreateBoard\<close> pushes the tiles by the two loops of \<open>Init\<close>; events
  are disabled and no event has been emitted.
\<close>

definition new_Board ::
  "('a, 'g) Generator \<Rightarrow> 'g \<Rightarrow> int \<Rightarrow> int \<Rightarrow> error + ('a, 'g) BoardObject" where
  "new_Board nxt generator boardColumns boardRows =
     (case Init nxt generator boardRows boardColumns of
        Inl e \<Rightarrow> Inl e
      | Inr (pieces, g') \<Rightarrow>
          Inr \<lparr>grid = \<lparr>width = boardColumns, height = boardRows, tilePieces = pieces\<rparr>,
               boardGenerator = g', events = [], isEventsEnabled = False\<rparr>)"

text \<open>
  What the cascade of the object variant stops on, and the events of one of its passes:
  the events the row scan emits, then those of the column scan, then the refill event of
  \<^verbatim>\<open>UpdateBoard\<close>.
\<close>

definition no_match_found_oo :: "'a Board \<Rightarrow> bool" where
  "no_match_found_oo b =
     (matches (FindRowMatches False b) = [] \<and> matches (FindColMatches False b) = [])"

definition pass_block_oo :: "'a BoardEvent list \<Rightarrow> bool" where
  "pass_block_oo blk =
     (\<exists>b. blk = boardEffects (FindRowMatches True b) @ boardEffects (FindColMatches True b)
                 @ [Refill]
          \<and> boardEffects (FindRowMatches True b) @ boardEffects (FindColMatches True b) \<noteq> [])"


section \<open>The generators and boards of the test suite\<close>

text \<open>
  \<^verbatim>\<open>CyclicGenerator\<close>: \<^verbatim>\<open>next\<close> yields the character at the index (the empty string
  out of range, as \<^verbatim>\<open>charAt\<close> does) and advances the index modulo the length.
\<close>

definition CyclicGenerator_next :: "(string, string \<times> nat) Generator" where
  "CyclicGenerator_next s =
     (case s of (sequence, index) \<Rightarrow>
        Inr (if index < length sequence then [sequence ! index] else [],
             (sequence, (index + 1) mod length sequence)))"

text \<open>The boards the tests create.\<close>

definition fixture_2x3 :: "string Board" where
  "fixture_2x3 = fst (projr (create CyclicGenerator_next (''ABC'', 0) 2 3))"

definition fixture_4x4 :: "string Board" where
  "fixture_4x4 =
     fst (projr (create GeneratorFake_next
        [''A'', ''B'', ''A'', ''C'',
         ''D'', ''C'', ''A'', ''C'',
         ''D'', ''A'', ''D'', ''D'',
         ''C'', ''C'', ''D'', ''C''] 4 4))"

definition fixture_3x4 :: "string Board" where
  "fixture_3x4 =
     fst (projr (create GeneratorFake_next
        [''A'', ''B'', ''A'',
         ''D'', ''B'', ''C'',
         ''D'', ''A'', ''C'',
         ''C'', ''D'', ''D''] 3 4))"

definition fixture_7x1 :: "string Board" where
  "fixture_7x1 =
     fst (projr (create GeneratorFake_next [''A'', ''A'', ''A'', ''B'', ''A'', ''A'', ''A''] 7 1))"

definition fixture_5x1 :: "string Board" where
  "fixture_5x1 =
     fst (projr (create GeneratorFake_next [''C'', ''C'', ''A'', ''C'', ''A''] 5 1))"

definition fixture_3x4_after :: "string Board" where
  "fixture_3x4_after =
     fst (projr (create GeneratorFake_next
        [''B'', ''C'', ''D'',
         ''D'', ''B'', ''C'',
         ''D'', ''B'', ''C'',
         ''C'', ''D'', ''D''] 3 4))"

definition fixture_3x4_effects :: "string BoardEffect list" where
  "fixture_3x4_effects =
     [MatchEffect \<lparr>matched = Some ''A'',
        positions = [\<lparr>row = 0, col = 0\<rparr>, \<lparr>row = 0, col = 1\<rparr>, \<lparr>row = 0, col = 2\<rparr>]\<rparr>,
      Refill]"

definition fixture_3x4_swapped :: "string Board" where
  "fixture_3x4_swapped =
     projr (SwapPieces fixture_3x4 \<lparr>row = 0, col = 1\<rparr> \<lparr>row = 2, col = 1\<rparr>)"

text \<open>The same boards as objects of the class.\<close>

definition object_2x3 :: "(string, string \<times> nat) BoardObject" where
  "object_2x3 = projr (new_Board CyclicGenerator_next (''ABC'', 0) 2 3)"

definition object_4x4 :: "(string, string list) BoardObject" where
  "object_4x4 =
     projr (new_Board GeneratorFake_next
        [''A'', ''B'', ''A'', ''C'',
         ''D'', ''C'', ''A'', ''C'',
         ''D'', ''A'', ''D'', ''D'',
         ''C'', ''C'', ''D'', ''C''] 4 4)"

definition object_3x4 :: "(string, string list) BoardObject" where
  "object_3x4 =
     projr (new_Board GeneratorFake_next
        [''A'', ''B'', ''A'',
         ''D'', ''B'', ''C'',
         ''D'', ''A'', ''C'',
         ''C'', ''D'', ''D''] 3 4)"

definition object_5x1 :: "(string, string list) BoardObject" where
  "object_5x1 = projr (new_Board GeneratorFake_next [''C'', ''C'', ''A'', ''C'', ''A''] 5 1)"

text \<open>The column scan of the class over the valid columns only.\<close>

definition FindColMatches_valid :: "bool \<Rightarrow> 'a Board \<Rightarrow> 'a MatchResult" where
  "FindColMatches_valid eventsEnabled b =
     scan_lines_oo (FindPiecesInCol b) (AllNeighboursInColCheck_oo eventsEnabled b)
       (rev (map int [0..<nat (width b)])) \<lparr>boardEffects = [], matches = []\<rparr>"


section \<open>The grid of a well-formed board\<close>

lemma find_SomeD: "find P xs = Some x \<Longrightarrow> x \<in> set xs \<and> P x"
  by (induction xs) (auto split: if_splits)

lemma length_board_positions [simp]: "length (board_positions h w) = nat h * nat w"
  by (simp add: board_positions_def)

lemma cell_index_less:
  assumes "r < h" "c < (w::nat)"
  shows "r * w + c < h * w"
proof -
  have "r * w + c < r * w + w" using assms by simp
  also have "\<dots> = Suc r * w" by simp
  also have "\<dots> \<le> h * w" using assms(1) by (intro mult_le_mono1) simp
  finally show ?thesis .
qed

lemma board_positions_nth:
  assumes "r < nat h" "c < nat w"
  shows "board_positions h w ! (r * nat w + c) = \<lparr>row = int r, col = int c\<rparr>"
proof -
  have lt: "r * nat w + c < nat h * nat w" using assms by (rule cell_index_less)
  have "List.product [0..<nat h] [0..<nat w] ! (r * nat w + c) = (r, c)"
    using lt assms by (simp add: product_nth)
  then show ?thesis using lt by (simp add: board_positions_def)
qed

lemma distinct_board_positions: "distinct (board_positions h w)"
proof -
  have "inj (\<lambda>(r, c). \<lparr>row = int r, col = int c\<rparr>)"
    by (auto simp: inj_on_def)
  then show ?thesis
    unfolding board_positions_def
    by (simp add: distinct_map distinct_product) (erule inj_on_subset, simp)
qed

lemma set_board_positions:
  "set (board_positions h w) = {p. 0 \<le> row p \<and> row p < h \<and> 0 \<le> col p \<and> col p < w}"
proof (rule set_eqI)
  fix p :: Position
  show "p \<in> set (board_positions h w) \<longleftrightarrow> p \<in> {p. 0 \<le> row p \<and> row p < h \<and> 0 \<le> col p \<and> col p < w}"
  proof
    assume "p \<in> set (board_positions h w)"
    then show "p \<in> {p. 0 \<le> row p \<and> row p < h \<and> 0 \<le> col p \<and> col p < w}"
      by (auto simp: board_positions_def)
  next
    assume "p \<in> {p. 0 \<le> row p \<and> row p < h \<and> 0 \<le> col p \<and> col p < w}"
    then have "(nat (row p), nat (col p)) \<in> set (List.product [0..<nat h] [0..<nat w])"
      and "p = (\<lambda>(r, c). \<lparr>row = int r, col = int c\<rparr>) (nat (row p), nat (col p))"
      by auto
    then show "p \<in> set (board_positions h w)"
      unfolding board_positions_def set_map by (rule_tac image_eqI)
  qed
qed

lemma wf_length: "wf_board b \<Longrightarrow> length (tilePieces b) = nat (height b) * nat (width b)"
  by (metis length_board_positions length_map wf_board_def)

lemma wf_distinct: "wf_board b \<Longrightarrow> distinct (map position (tilePieces b))"
  by (simp add: wf_board_def distinct_board_positions)

lemma inside_iff:
  "IsPositionOutsideBoard b p \<longleftrightarrow> 0 \<le> row p \<and> row p < height b \<and> 0 \<le> col p \<and> col p < width b"
  by (auto simp: IsPositionOutsideBoard_def)

lemma wf_position_tile_at:
  assumes "wf_board b" "0 \<le> r" "r < height b" "0 \<le> c" "c < width b"
  shows "position (tile_at b r c) = \<lparr>row = r, col = c\<rparr>"
    and "nat r * nat (width b) + nat c < length (tilePieces b)"
    and "tile_at b r c \<in> set (tilePieces b)"
proof -
  have lt: "nat r * nat (width b) + nat c < nat (height b) * nat (width b)"
    using assms by (intro cell_index_less) auto
  then show l: "nat r * nat (width b) + nat c < length (tilePieces b)"
    using assms(1) by (simp add: wf_length)
  have "position (tile_at b r c) = map position (tilePieces b) ! (nat r * nat (width b) + nat c)"
    using l by (simp add: tile_at_def)
  also have "\<dots> = \<lparr>row = int (nat r), col = int (nat c)\<rparr>"
    using assms by (simp add: wf_board_def board_positions_nth)
  finally show "position (tile_at b r c) = \<lparr>row = r, col = c\<rparr>"
    using assms by simp
  show "tile_at b r c \<in> set (tilePieces b)"
    using l by (simp add: tile_at_def)
qed

lemma wf_unique_position:
  assumes "wf_board b" "t \<in> set (tilePieces b)" "t' \<in> set (tilePieces b)"
    "position t = position t'"
  shows "t = t'"
  using wf_distinct [OF assms(1)] assms(2-4)
  by (meson distinct_map inj_onD)

lemma find_unique:
  assumes "distinct (map f xs)" "x \<in> set xs"
  shows "find (\<lambda>y. f y = f x) xs = Some x"
  using assms by (induction xs) (auto simp: image_iff)

lemma Find_eq_find:
  "FindTilePieceOnPosition b p = find (\<lambda>t. position t = p) (tilePieces b)"
  unfolding FindTilePieceOnPosition_def
  by (rule find_cong) auto

lemma wf_Find_inside:
  assumes "wf_board b" "0 \<le> r" "r < height b" "0 \<le> c" "c < width b"
  shows "FindTilePieceOnPosition b \<lparr>row = r, col = c\<rparr> = Some (tile_at b r c)"
  using find_unique [OF wf_distinct [OF assms(1)] wf_position_tile_at(3) [OF assms]]
    wf_position_tile_at(1) [OF assms]
  by (simp add: Find_eq_find)

lemma wf_set_positions:
  "wf_board b \<Longrightarrow> position ` set (tilePieces b) = {p. IsPositionOutsideBoard b p}"
  by (metis (no_types, lifting) Collect_cong inside_iff list.set_map set_board_positions wf_board_def)

lemma wf_Find_outside:
  assumes "wf_board b" "\<not> IsPositionOutsideBoard b p"
  shows "FindTilePieceOnPosition b p = None"
  using wf_set_positions [OF assms(1)] assms(2)
  by (auto simp: Find_eq_find find_None_iff)

lemma wf_Find:
  assumes "wf_board b"
  shows "FindTilePieceOnPosition b p =
           (if IsPositionOutsideBoard b p then Some (tile_at b (row p) (col p)) else None)"
proof (cases "IsPositionOutsideBoard b p")
  case True
  have "FindTilePieceOnPosition b \<lparr>row = row p, col = col p\<rparr> = FindTilePieceOnPosition b p"
    by (cases p) simp
  moreover have "FindTilePieceOnPosition b \<lparr>row = row p, col = col p\<rparr>
                   = Some (tile_at b (row p) (col p))"
    using True by (intro wf_Find_inside [OF assms]) (simp_all add: inside_iff)
  ultimately show ?thesis using True by simp
next
  case False
  then show ?thesis using wf_Find_outside [OF assms] by simp
qed

section \<open>Swapping\<close>

lemma indexOf_find: "indexOf xs (find P xs) = first_index P xs"
proof (induction xs)
  case Nil
  show ?case by simp
next
  case (Cons x xs)
  show ?case
  proof (cases "P x")
    case True
    then show ?thesis by simp
  next
    case False
    then have "find P xs \<noteq> Some x" by (auto dest: find_SomeD)
    with False Cons show ?thesis by simp
  qed
qed

lemma first_index_map: "first_index (\<lambda>t. P (f t)) xs = first_index P (map f xs)"
  by (induction xs) simp_all

lemma first_index_SomeD:
  "first_index P xs = Some i \<Longrightarrow> i < length xs \<and> P (xs ! i) \<and> find P xs = Some (xs ! i)"
  by (induction xs arbitrary: i) (auto split: if_splits)

lemma first_index_None: "first_index P xs = None \<longleftrightarrow> find P xs = None"
  by (induction xs) auto

lemma nth_update_if: "xs[i := x] ! j = (if i = j \<and> i < length xs then x else xs ! j)"
  by (cases "i < length xs") (auto simp: nth_list_update list_update_beyond)

lemma map_position_update2:
  assumes "position a = position (xs ! i)" "position c = position (xs ! j)"
  shows "map position (xs[i := a, j := c]) = map position xs"
  using assms by (intro nth_equalityI) (auto simp: nth_update_if)

lemma SwapPieces_eq:
  "SwapPieces b p q =
     (case first_index (at_position p) (tilePieces b) of
        None \<Rightarrow> Inl TypeError
      | Some i \<Rightarrow>
         (case first_index (at_position q) (tilePieces b) of
            None \<Rightarrow> Inl TypeError
          | Some j \<Rightarrow>
              Inr (b\<lparr>tilePieces :=
                     (tilePieces b)[i := (tilePieces b ! i)\<lparr>val := val (tilePieces b ! j)\<rparr>,
                                    j := (tilePieces b ! j)\<lparr>val := val (tilePieces b ! i)\<rparr>]\<rparr>)))"
proof -
  have "((tilePieces b)[i := (tilePieces b ! i)\<lparr>val := vj\<rparr>] ! j)\<lparr>val := vi\<rparr>
        = (tilePieces b ! j)\<lparr>val := vi\<rparr>" for i j vi vj
    by (simp add: nth_update_if)
  then show ?thesis
    by (simp add: SwapPieces_def FindTilePieceOnPosition_def indexOf_find swapProperties_def
        Let_def at_position_def [abs_def] split: option.splits)
qed

lemma first_index_positions_cong:
  fixes xs ys :: "'a TilePiece list"
  assumes "map position xs = map position ys"
  shows "first_index (at_position p) xs = first_index (at_position p) ys"
proof -
  have "first_index (at_position p) zs
        = first_index (\<lambda>q. col q = col p \<and> row q = row p) (map position zs)"
    for zs :: "'a TilePiece list"
    unfolding at_position_def by (rule first_index_map)
  from this [of xs] this [of ys] assms show ?thesis by metis
qed

lemma SwapPieces_frame:
  assumes "SwapPieces b p q = Inr b1"
  shows "map position (tilePieces b1) = map position (tilePieces b)"
    and "width b1 = width b" and "height b1 = height b"
    and "length (tilePieces b1) = length (tilePieces b)"
  using assms
  by (auto simp: SwapPieces_eq map_position_update2 split: option.splits)

lemma swap_vals_twice:
  assumes "i < length xs" "j < length xs"
  shows "(xs[i := (xs ! i)\<lparr>val := val (xs ! j)\<rparr>, j := (xs ! j)\<lparr>val := val (xs ! i)\<rparr>])
           [i := (xs[i := (xs ! i)\<lparr>val := val (xs ! j)\<rparr>, j := (xs ! j)\<lparr>val := val (xs ! i)\<rparr>] ! i)
                   \<lparr>val := val (xs[i := (xs ! i)\<lparr>val := val (xs ! j)\<rparr>, j := (xs ! j)\<lparr>val := val (xs ! i)\<rparr>] ! j)\<rparr>,
            j := (xs[i := (xs ! i)\<lparr>val := val (xs ! j)\<rparr>, j := (xs ! j)\<lparr>val := val (xs ! i)\<rparr>] ! j)
                   \<lparr>val := val (xs[i := (xs ! i)\<lparr>val := val (xs ! j)\<rparr>, j := (xs ! j)\<lparr>val := val (xs ! i)\<rparr>] ! i)\<rparr>]
         = xs"
  using assms by (intro nth_equalityI) (auto simp: nth_update_if)

lemma SwapPieces_twice:
  assumes "SwapPieces b p q = Inr b1"
  shows "SwapPieces b1 p q = Inr b"
proof -
  from assms obtain i j where
    i: "first_index (at_position p) (tilePieces b) = Some i" and
    j: "first_index (at_position q) (tilePieces b) = Some j" and
    b1: "b1 = b\<lparr>tilePieces :=
                 (tilePieces b)[i := (tilePieces b ! i)\<lparr>val := val (tilePieces b ! j)\<rparr>,
                                j := (tilePieces b ! j)\<lparr>val := val (tilePieces b ! i)\<rparr>]\<rparr>"
    by (auto simp: SwapPieces_eq split: option.splits)
  have il: "i < length (tilePieces b)" and jl: "j < length (tilePieces b)"
    using i j by (auto dest: first_index_SomeD)
  have pos: "map position (tilePieces b1) = map position (tilePieces b)"
    using assms by (rule SwapPieces_frame)
  have i1: "first_index (at_position p) (tilePieces b1) = Some i"
    and j1: "first_index (at_position q) (tilePieces b1) = Some j"
    using i j first_index_positions_cong [OF pos] by simp_all
  show ?thesis
    unfolding SwapPieces_eq i1 j1
    by (simp add: b1 swap_vals_twice [OF il jl])
qed

lemma SwapPieces_wf:
  assumes "wf_board b" "SwapPieces b p q = Inr b1"
  shows "wf_board b1"
  using assms SwapPieces_frame [OF assms(2)] by (simp add: wf_board_def)

lemma wf_first_index:
  assumes "wf_board b" "IsPositionOutsideBoard b p"
  shows "\<exists>i. first_index (at_position p) (tilePieces b) = Some i"
proof -
  have "find (at_position p) (tilePieces b) \<noteq> None"
    using wf_Find [OF assms(1), of p] assms(2)
    by (simp add: FindTilePieceOnPosition_def at_position_def [abs_def])
  then show ?thesis
    by (metis first_index_None not_None_eq)
qed

lemma wf_SwapPieces_total:
  assumes "wf_board b" "IsPositionOutsideBoard b p" "IsPositionOutsideBoard b q"
  shows "\<exists>b1. SwapPieces b p q = Inr b1"
  using wf_first_index [OF assms(1,2)] wf_first_index [OF assms(1,3)]
  by (auto simp: SwapPieces_eq)

lemma IsMoveLegal_board:
  assumes "IsMoveLegal b p q = Inr (b', r)"
  shows "b' = b"
proof -
  have "b2 = b" if "SwapPieces b p q = Inr b1" "SwapPieces b1 p q = Inr b2" for b1 b2
    using SwapPieces_twice [OF that(1)] that(2) by simp
  then show ?thesis
    using assms
    by (auto simp: IsMoveLegal_def Let_def split: if_splits sum.splits)
qed

lemma wf_IsMoveLegal_total:
  assumes "wf_board b"
  shows "\<exists>r. IsMoveLegal b p q = Inr (b, r)"
proof (cases "IsPositionOutsideBoard b p \<and> IsPositionOutsideBoard b q")
  case True
  then obtain b1 where b1: "SwapPieces b p q = Inr b1"
    using wf_SwapPieces_total [OF assms] by blast
  then have "SwapPieces b1 p q = Inr b" by (rule SwapPieces_twice)
  with b1 show ?thesis by (auto simp: IsMoveLegal_def Let_def)
next
  case False
  then show ?thesis by (auto simp: IsMoveLegal_def)
qed


section \<open>Construction\<close>

lemma Init_cols_pieces:
  "Init_cols nxt r cs (pieces, g) = Inr (pieces', g') \<Longrightarrow>
   map position pieces' = map position pieces @ map (\<lambda>c. \<lparr>row = r, col = c\<rparr>) cs
   \<and> (None \<notin> val ` set pieces \<longrightarrow> None \<notin> val ` set pieces')"
proof (induction cs arbitrary: pieces g)
  case Nil
  then show ?case by simp
next
  case (Cons c cs)
  from Cons.prems obtain v g1 where
    n: "nxt g = Inr (v, g1)" and
    rest: "Init_cols nxt r cs (pieces @ [\<lparr>position = \<lparr>row = r, col = c\<rparr>, val = Some v\<rparr>], g1)
            = Inr (pieces', g')"
    by (auto split: sum.splits)
  from Cons.IH [OF rest] show ?case by auto
qed

lemma Init_rows_pieces:
  "Init_rows nxt rs w (pieces, g) = Inr (pieces', g') \<Longrightarrow>
   map position pieces'
     = map position pieces
       @ concat (map (\<lambda>r. map (\<lambda>c. \<lparr>row = r, col = c\<rparr>) (map int [0..<nat w])) rs)
   \<and> (None \<notin> val ` set pieces \<longrightarrow> None \<notin> val ` set pieces')"
proof (induction rs arbitrary: pieces g)
  case Nil
  then show ?case by simp
next
  case (Cons r rs)
  from Cons.prems obtain pieces1 g1 where
    c: "Init_cols nxt r (map int [0..<nat w]) (pieces, g) = Inr (pieces1, g1)" and
    rest: "Init_rows nxt rs w (pieces1, g1) = Inr (pieces', g')"
    by (auto split: sum.splits)
  from Init_cols_pieces [OF c] Cons.IH [OF rest] show ?case by simp
qed

lemma board_positions_concat:
  "board_positions h w
   = concat (map (\<lambda>r. map (\<lambda>c. \<lparr>row = r, col = c\<rparr>) (map int [0..<nat w])) (map int [0..<nat h]))"
  by (simp add: board_positions_def product_concat_map map_concat comp_def)

text \<open>Every board that \<open>create\<close> returns is well formed, and each of its tiles has a value.\<close>

lemma create_wf:
  assumes "create nxt g w h = Inr (b, g')"
  shows "wf_board b" and "width b = w" and "height b = h" and "None \<notin> val ` set (tilePieces b)"
proof -
  from assms obtain pieces where
    i: "Init_rows nxt (map int [0..<nat h]) w ([], g) = Inr (pieces, g')" and
    b: "b = \<lparr>width = w, height = h, tilePieces = pieces\<rparr>"
    by (auto simp: create_def Init_def split: sum.splits)
  from Init_rows_pieces [OF i] show "wf_board b" "None \<notin> val ` set (tilePieces b)"
    by (simp_all add: b wf_board_def board_positions_concat)
  show "width b = w" "height b = h" by (simp_all add: b)
qed


section \<open>The match finder\<close>

lemma step_position_0: "step_position d p 0 = p"
  by (cases d; cases p) simp_all

lemma step_position_Suc:
  "step_position d (step_position d p (Suc 0)) i = step_position d p (Suc i)"
  by (cases d) simp_all

lemma run_positions_Suc:
  "run_positions d p (Suc n) = p # run_positions d (step_position d p (Suc 0)) n"
proof -
  have "[0..<Suc n] = 0 # map Suc [0..<n]"
    by (simp add: upt_conv_Cons map_Suc_upt del: upt_Suc)
  then show ?thesis
    by (simp add: run_positions_def step_position_0 step_position_Suc comp_def del: upt_Suc)
qed

lemma FindNextPiecePosition_step:
  "FindNextPiecePosition currentTile d = step_position d (position currentTile) (Suc 0)"
  by (cases d) (simp_all add: FindNextPiecePosition_def)

lemma Find_SomeD:
  assumes "FindTilePieceOnPosition b p = Some t"
  shows "position t = p" and "t \<in> set (tilePieces b)"
proof -
  from assms have "t \<in> set (tilePieces b)
      \<and> col (position t) = col p \<and> row (position t) = row p"
    unfolding FindTilePieceOnPosition_def by (rule find_SomeD)
  then show "t \<in> set (tilePieces b)" and "position t = p"
    by (cases p; cases "position t"; simp)+
qed

text \<open>A walk collects the tiles of consecutive positions, each with the value sought.\<close>

lemma CheckNeighbours_run:
  "\<exists>ts n. CheckNeighbours b (FindTilePieceOnPosition b p) acc v d = acc @ ts
        \<and> map position ts = run_positions d p n
        \<and> (\<forall>t \<in> set ts. val t = v \<and> t \<in> set (tilePieces b))"
proof (induction b "FindTilePieceOnPosition b p" acc v d arbitrary: p rule: CheckNeighbours.induct)
  case (1 b matchingPieces v Direction)
  show ?case
  proof (cases "FindTilePieceOnPosition b p")
    case None
    then have "CheckNeighbours b (FindTilePieceOnPosition b p) matchingPieces v Direction
               = matchingPieces @ []"
      by (simp add: CheckNeighbours.simps)
    moreover have "map position [] = run_positions Direction p 0"
      by (simp add: run_positions_def)
    ultimately show ?thesis by fastforce
  next
    case (Some currentTile)
    note pos = Find_SomeD [OF Some]
    show ?thesis
    proof (cases "val currentTile = v")
      case False
      with Some have "CheckNeighbours b (FindTilePieceOnPosition b p) matchingPieces v Direction
               = matchingPieces @ []"
        by (simp add: CheckNeighbours.simps)
      moreover have "map position [] = run_positions Direction p 0"
        by (simp add: run_positions_def)
      ultimately show ?thesis by fastforce
    next
      case True
      from "1" [OF Some True refl]
      obtain ts n where
        ih: "CheckNeighbours b (FindTilePieceOnPosition b (FindNextPiecePosition currentTile Direction))
               (matchingPieces @ [currentTile]) v Direction = (matchingPieces @ [currentTile]) @ ts"
          "map position ts = run_positions Direction (FindNextPiecePosition currentTile Direction) n"
          "\<forall>t \<in> set ts. val t = v \<and> t \<in> set (tilePieces b)"
        by blast
      have "CheckNeighbours b (FindTilePieceOnPosition b p) matchingPieces v Direction
            = matchingPieces @ (currentTile # ts)"
        using Some True ih(1) by (subst CheckNeighbours.simps) simp
      moreover have "map position (currentTile # ts) = run_positions Direction p (Suc n)"
        using ih(2) pos(1) by (simp add: run_positions_Suc FindNextPiecePosition_step)
      moreover have "\<forall>t \<in> set (currentTile # ts). val t = v \<and> t \<in> set (tilePieces b)"
        using ih(3) True pos(2) by simp
      ultimately show ?thesis by blast
    qed
  qed
qed

lemma CheckNeighbours_stop:
  assumes "\<And>t. FindTilePieceOnPosition b p = Some t \<Longrightarrow> val t \<noteq> v"
  shows "CheckNeighbours b (FindTilePieceOnPosition b p) acc v d = acc"
  using assms by (cases "FindTilePieceOnPosition b p") (simp_all add: CheckNeighbours.simps)

lemma filter_product_fst:
  assumes "distinct xs"
  shows "filter (\<lambda>(x, y). x = k) (List.product xs ys) = (if k \<in> set xs then map (Pair k) ys else [])"
  using assms
proof (induction xs)
  case Nil
  show ?case by simp
next
  case (Cons x xs)
  have "filter (\<lambda>(x', y). x' = k) (map (Pair x) ys) = (if x = k then map (Pair x) ys else [])"
    by (induction ys) auto
  with Cons show ?case by auto
qed

lemma filter_product_snd:
  assumes "distinct ys"
  shows "filter (\<lambda>(x, y). y = k) (List.product xs ys) = (if k \<in> set ys then map (\<lambda>x. (x, k)) xs else [])"
proof (induction xs)
  case Nil
  show ?case by simp
next
  case (Cons x xs)
  have "filter (\<lambda>(x', y). y = k) (map (Pair x) ys) = (if k \<in> set ys then [(x, k)] else [])"
    using assms by (induction ys) auto
  with Cons show ?case by auto
qed

lemma wf_tilePieces:
  assumes "wf_board b"
  shows "tilePieces b
         = map (\<lambda>(r, c). tile_at b (int r) (int c))
             (List.product [0..<nat (height b)] [0..<nat (width b)])"
proof (rule nth_equalityI)
  show "length (tilePieces b)
        = length (map (\<lambda>(r, c). tile_at b (int r) (int c))
             (List.product [0..<nat (height b)] [0..<nat (width b)]))"
    using assms by (simp add: wf_length)
next
  fix i
  assume "i < length (tilePieces b)"
  then have i: "i < nat (height b) * nat (width b)"
    using assms by (simp add: wf_length)
  then have w: "0 < nat (width b)" by (cases "nat (width b)") auto
  have d: "i div nat (width b) < nat (height b)"
    using i by (simp add: less_mult_imp_div_less)
  have "List.product [0..<nat (height b)] [0..<nat (width b)] ! i
        = (i div nat (width b), i mod nat (width b))"
    using i d w by (simp add: product_nth)
  then show "tilePieces b ! i
        = map (\<lambda>(r, c). tile_at b (int r) (int c))
             (List.product [0..<nat (height b)] [0..<nat (width b)]) ! i"
    using i by (simp add: tile_at_def)
qed

lemma wf_position_prod:
  assumes "wf_board b" "rc \<in> set (List.product [0..<nat (height b)] [0..<nat (width b)])"
  shows "position ((\<lambda>(r, c). tile_at b (int r) (int c)) rc) = \<lparr>row = int (fst rc), col = int (snd rc)\<rparr>"
  using assms wf_position_tile_at(1) [of b "int (fst rc)" "int (snd rc)"]
  by (cases rc) auto

lemma wf_row_line:
  assumes "wf_board b" "0 \<le> r" "r < height b"
  shows "FindAllTilePiecesInRow b r = map (\<lambda>c. tile_at b r (int c)) [0..<nat (width b)]"
proof -
  let ?g = "\<lambda>(r, c). tile_at b (int r) (int c)"
  let ?prod = "List.product [0..<nat (height b)] [0..<nat (width b)]"
  have "FindAllTilePiecesInRow b r = filter (\<lambda>e. row (position e) = r) (map ?g ?prod)"
    using wf_tilePieces [OF assms(1)] by (simp add: FindAllTilePiecesInRow_def)
  also have "\<dots> = map ?g (filter (\<lambda>rc. row (position (?g rc)) = r) ?prod)"
    by (simp add: filter_map comp_def)
  also have "filter (\<lambda>rc. row (position (?g rc)) = r) ?prod
             = filter (\<lambda>(r', c'). r' = nat r) ?prod"
  proof (rule filter_cong [OF refl])
    fix rc assume "rc \<in> set ?prod"
    from wf_position_prod [OF assms(1) this] assms(2)
    show "(row (position (?g rc)) = r) = (case rc of (r', c') \<Rightarrow> r' = nat r)"
      by (cases rc) auto
  qed
  also have "\<dots> = map (Pair (nat r)) [0..<nat (width b)]"
    using assms(2,3) by (simp add: filter_product_fst)
  finally show ?thesis using assms(2) by (simp add: comp_def)
qed

lemma wf_col_line:
  assumes "wf_board b"
  shows "FindAllTilePiecesInColumn b c
         = (if 0 \<le> c \<and> c < width b then map (\<lambda>r. tile_at b (int r) c) [0..<nat (height b)] else [])"
proof -
  let ?g = "\<lambda>(r, c). tile_at b (int r) (int c)"
  let ?prod = "List.product [0..<nat (height b)] [0..<nat (width b)]"
  have "FindAllTilePiecesInColumn b c = filter (\<lambda>e. col (position e) = c) (map ?g ?prod)"
    using wf_tilePieces [OF assms(1)] by (simp add: FindAllTilePiecesInColumn_def)
  also have "\<dots> = map ?g (filter (\<lambda>rc. col (position (?g rc)) = c) ?prod)"
    by (simp add: filter_map comp_def)
  finally have eq: "FindAllTilePiecesInColumn b c
      = map ?g (filter (\<lambda>rc. col (position (?g rc)) = c) ?prod)" .
  show ?thesis
  proof (cases "0 \<le> c \<and> c < width b")
    case True
    have "filter (\<lambda>rc. col (position (?g rc)) = c) ?prod
             = filter (\<lambda>(r', c'). c' = nat c) ?prod"
    proof (rule filter_cong [OF refl])
      fix rc assume "rc \<in> set ?prod"
      from wf_position_prod [OF assms(1) this] True
      show "(col (position (?g rc)) = c) = (case rc of (r', c') \<Rightarrow> c' = nat c)"
        by (cases rc) auto
    qed
    also have "\<dots> = map (\<lambda>r. (r, nat c)) [0..<nat (height b)]"
      using True by (simp add: filter_product_snd)
    finally show ?thesis using True eq by (simp add: comp_def)
  next
    case False
    have "filter (\<lambda>rc. col (position (?g rc)) = c) ?prod = []"
    proof (rule filter_False, rule ballI)
      fix rc assume "rc \<in> set ?prod"
      from wf_position_prod [OF assms(1) this] False this
      show "\<not> col (position (?g rc)) = c"
        by (cases rc) auto
    qed
    with eq have "FindAllTilePiecesInColumn b c = []" by simp
    with False show ?thesis by auto
  qed
qed

lemma scan_line_invariant:
  assumes "line = visited @ rest" "val ` set visited \<subseteq> set cv" "I acc"
    and step: "\<And>pre e post a. line = pre @ e # post \<Longrightarrow> val e \<notin> val ` set pre \<Longrightarrow> I a \<Longrightarrow>
            I \<lparr>boardEffects = boardEffects a @ boardEffects (check e),
               matches = matches a @ matches (check e)\<rparr>"
  shows "I (scan_line check rest cv acc)"
  using assms(1-3)
proof (induction rest arbitrary: visited cv acc)
  case Nil
  then show ?case by simp
next
  case (Cons e rest)
  have line: "line = (visited @ [e]) @ rest" using Cons.prems(1) by simp
  show ?case
  proof (cases "val e \<in> set cv")
    case True
    then have "val ` set (visited @ [e]) \<subseteq> set cv" using Cons.prems(2) by simp
    from Cons.IH [OF line this Cons.prems(3)] True show ?thesis by simp
  next
    case False
    then have "val e \<notin> val ` set visited" using Cons.prems(2) by auto
    from step [OF Cons.prems(1) this Cons.prems(3)]
    have I': "I \<lparr>boardEffects = boardEffects acc @ boardEffects (check e),
               matches = matches acc @ matches (check e)\<rparr>" .
    have "val ` set (visited @ [e]) \<subseteq> set (cv @ [val e])" using Cons.prems(2) by auto
    from Cons.IH [OF line this I'] False show ?thesis by (simp add: Let_def)
  qed
qed

lemma scan_lines_invariant:
  assumes "I acc"
    and step: "\<And>i pre e post a. i \<in> set is \<Longrightarrow> line i = pre @ e # post \<Longrightarrow>
            val e \<notin> val ` set pre \<Longrightarrow> I a \<Longrightarrow>
            I \<lparr>boardEffects = boardEffects a @ boardEffects (check e),
               matches = matches a @ matches (check e)\<rparr>"
  shows "I (scan_lines line check is acc)"
  using assms
proof (induction "is" arbitrary: acc)
  case Nil
  then show ?case by simp
next
  case (Cons i "is")
  have "I (scan_line check (line i) [] acc)"
  proof (rule scan_line_invariant [where visited = "[]" and line = "line i"])
    show "line i = [] @ line i" by simp
    show "val ` set [] \<subseteq> set []" by simp
    show "I acc" by (rule Cons.prems(1))
    show "I \<lparr>boardEffects = boardEffects a @ boardEffects (check e),
             matches = matches a @ matches (check e)\<rparr>"
      if "line i = pre @ e # post" "val e \<notin> val ` set pre" "I a" for pre e post a
      using Cons.prems(2) [OF _ that] by simp
  qed
  then have "I (scan_lines line check is (scan_line check (line i) [] acc))"
  proof (rule Cons.IH)
    fix j pre e post a
    assume "j \<in> set is" and rest: "line j = pre @ e # post" "val e \<notin> val ` set pre" "I a"
    then have "j \<in> set (i # is)" by simp
    from Cons.prems(2) [OF this rest]
    show "I \<lparr>boardEffects = boardEffects a @ boardEffects (check e),
             matches = matches a @ matches (check e)\<rparr>" .
  qed
  then show ?case by simp
qed

lemma map_upt_split:
  assumes "map f [0..<n] = pre @ e # post"
  shows "e = f (length pre)" and "pre = map f [0..<length pre]" and "length pre < n"
proof -
  have len: "n = length pre + Suc (length post)"
    using arg_cong [OF assms, of length] by simp
  then show "length pre < n" by simp
  have "pre = take (length pre) (map f [0..<n])" using assms by simp
  also have "\<dots> = map f [0..<length pre]" using len by (simp add: take_map)
  finally show "pre = map f [0..<length pre]" .
  have "e = (map f [0..<n]) ! length pre" using assms by simp
  also have "\<dots> = f (length pre)"
    using \<open>length pre < n\<close> by (subst nth_map) simp_all
  finally show "e = f (length pre)" .
qed

text \<open>The result of a check whose backward walk stops at once.\<close>

lemma row_check_result:
  assumes "\<And>t. FindTilePieceOnPosition b (FindNextPiecePosition e LEFT) = Some t \<Longrightarrow> val t \<noteq> val e"
  shows "\<exists>ts n. map position (e # ts) = run_positions RIGHT (position e) (Suc n)
           \<and> (\<forall>t \<in> set ts. val t = val e \<and> t \<in> set (tilePieces b))
           \<and> AllNeighboursInRowCheck b e =
               (if 2 \<le> n
                then \<lparr>boardEffects = [MatchEffect \<lparr>matched = val e, positions = map position (e # ts)\<rparr>],
                      matches = e # ts\<rparr>
                else \<lparr>boardEffects = [], matches = []\<rparr>)"
proof -
  have l: "CheckNeighbours b (FindTilePieceOnPosition b (FindNextPiecePosition e LEFT)) [] (val e) LEFT = []"
    using assms by (rule CheckNeighbours_stop)
  obtain ts n where r:
    "CheckNeighbours b (FindTilePieceOnPosition b (FindNextPiecePosition e RIGHT)) [] (val e) RIGHT = [] @ ts"
    "map position ts = run_positions RIGHT (FindNextPiecePosition e RIGHT) n"
    "\<forall>t \<in> set ts. val t = val e \<and> t \<in> set (tilePieces b)"
    using CheckNeighbours_run [of b "FindNextPiecePosition e RIGHT" "[]" "val e" RIGHT] by blast
  have "length ts = n" using arg_cong [OF r(2), of length] by (simp add: run_positions_def)
  then have "AllNeighboursInRowCheck b e =
               (if 2 \<le> n
                then \<lparr>boardEffects = [MatchEffect \<lparr>matched = val e, positions = map position (e # ts)\<rparr>],
                      matches = e # ts\<rparr>
                else \<lparr>boardEffects = [], matches = []\<rparr>)"
    using l r(1) by (auto simp: AllNeighboursInRowCheck_def CreateBoardEffectForMatch_def)
  moreover have "map position (e # ts) = run_positions RIGHT (position e) (Suc n)"
    using r(2) by (simp add: run_positions_Suc FindNextPiecePosition_step)
  ultimately show ?thesis using r(3) by blast
qed

lemma col_check_result:
  assumes "\<And>t. FindTilePieceOnPosition b (FindNextPiecePosition e UP) = Some t \<Longrightarrow> val t \<noteq> val e"
  shows "\<exists>ts n. map position (e # ts) = run_positions DOWN (position e) (Suc n)
           \<and> (\<forall>t \<in> set ts. val t = val e \<and> t \<in> set (tilePieces b))
           \<and> AllNeighboursInColCheck b e =
               (if 2 \<le> n
                then \<lparr>boardEffects = [MatchEffect \<lparr>matched = val e, positions = map position (e # ts)\<rparr>],
                      matches = e # ts\<rparr>
                else \<lparr>boardEffects = [], matches = []\<rparr>)"
proof -
  have l: "CheckNeighbours b (FindTilePieceOnPosition b (FindNextPiecePosition e UP)) [] (val e) UP = []"
    using assms by (rule CheckNeighbours_stop)
  obtain ts n where r:
    "CheckNeighbours b (FindTilePieceOnPosition b (FindNextPiecePosition e DOWN)) [] (val e) DOWN = [] @ ts"
    "map position ts = run_positions DOWN (FindNextPiecePosition e DOWN) n"
    "\<forall>t \<in> set ts. val t = val e \<and> t \<in> set (tilePieces b)"
    using CheckNeighbours_run [of b "FindNextPiecePosition e DOWN" "[]" "val e" DOWN] by blast
  have "length ts = n" using arg_cong [OF r(2), of length] by (simp add: run_positions_def)
  then have "AllNeighboursInColCheck b e =
               (if 2 \<le> n
                then \<lparr>boardEffects = [MatchEffect \<lparr>matched = val e, positions = map position (e # ts)\<rparr>],
                      matches = e # ts\<rparr>
                else \<lparr>boardEffects = [], matches = []\<rparr>)"
    using l r(1) by (auto simp: AllNeighboursInColCheck_def CreateBoardEffectForMatch_def Let_def)
  moreover have "map position (e # ts) = run_positions DOWN (position e) (Suc n)"
    using r(2) by (simp add: run_positions_Suc FindNextPiecePosition_step)
  ultimately show ?thesis using r(3) by blast
qed

lemma wf_tilePiece_member:
  assumes "wf_board b" "t \<in> set (tilePieces b)"
  shows "IsPositionOutsideBoard b (position t)" and "tilePiece b (position t) = Inr (val t)"
    and "FindTilePieceOnPosition b (position t) = Some t"
proof -
  show ins: "IsPositionOutsideBoard b (position t)"
    using wf_set_positions [OF assms(1)] assms(2) by blast
  show f: "FindTilePieceOnPosition b (position t) = Some t"
    using find_unique [OF wf_distinct [OF assms(1)] assms(2)] by (simp add: Find_eq_find)
  show "tilePiece b (position t) = Inr (val t)"
    using ins f by (simp add: tilePiece_def)
qed

lemma axis_run_intro:
  assumes wf: "wf_board b" and e: "e \<in> set (tilePieces b)"
    and ts: "\<forall>t \<in> set ts. val t = val e \<and> t \<in> set (tilePieces b)"
    and run: "map position (e # ts) = run_positions d (position e) (Suc n)" and n: "2 \<le> n"
  shows "axis_run d b (MatchEffect \<lparr>matched = val e, positions = map position (e # ts)\<rparr>)"
proof -
  define ps where "ps = map position (e # ts)"
  have "\<forall>q \<in> set ps. IsPositionOutsideBoard b q \<and> tilePiece b q = Inr (val e)"
    unfolding ps_def using wf_tilePiece_member(1,2) [OF wf] e ts by auto
  moreover have "ps = run_positions d (position e) (Suc n)"
    unfolding ps_def by (rule run)
  ultimately show ?thesis
    unfolding axis_run_def ps_def [symmetric] using n
    by (intro exI [of _ "\<lparr>matched = val e, positions = ps\<rparr>"]
        exI [of _ "position e"] exI [of _ "Suc n"]) simp
qed

lemma row_left_stop:
  assumes wf: "wf_board b" and r: "0 \<le> r" "r < height b"
    and split: "FindAllTilePiecesInRow b r = pre @ e # post" and fresh: "val e \<notin> val ` set pre"
    and found: "FindTilePieceOnPosition b (FindNextPiecePosition e LEFT) = Some t"
  shows "val t \<noteq> val e"
proof -
  let ?f = "\<lambda>c. tile_at b r (int c)"
  let ?k = "length pre"
  from split have m: "map ?f [0..<nat (width b)] = pre @ e # post"
    using wf_row_line [OF wf r] by simp
  note s = map_upt_split [OF m]
  have k: "int ?k < width b" using s(3) by simp
  have pe: "position e = \<lparr>row = r, col = int ?k\<rparr>"
    using wf_position_tile_at(1) [OF wf r _ k] s(1) by simp
  then have nxt: "FindNextPiecePosition e LEFT = \<lparr>row = r, col = int ?k - 1\<rparr>"
    by (simp add: FindNextPiecePosition_def)
  show ?thesis
  proof (cases "?k = 0")
    case True
    then have "\<not> IsPositionOutsideBoard b (FindNextPiecePosition e LEFT)"
      by (simp add: nxt inside_iff)
    then show ?thesis using found wf_Find_outside [OF wf] by simp
  next
    case False
    then have "FindTilePieceOnPosition b (FindNextPiecePosition e LEFT) = Some (tile_at b r (int ?k - 1))"
      unfolding nxt using k r by (intro wf_Find_inside [OF wf]) simp_all
    with found have "t = tile_at b r (int ?k - 1)" by simp
    also have "int ?k - 1 = int (?k - 1)" using False by (cases pre) simp_all
    finally have "t = ?f (?k - 1)" .
    moreover have "?f (?k - 1) \<in> set (map ?f [0..<?k])" using False by simp
    ultimately have "t \<in> set (map ?f [0..<?k])" by (simp only:)
    then have "t \<in> set pre" using s(2) by simp
    then show ?thesis using fresh by (metis imageI)
  qed
qed

lemma col_up_stop:
  assumes wf: "wf_board b"
    and split: "FindAllTilePiecesInColumn b c = pre @ e # post" and fresh: "val e \<notin> val ` set pre"
    and found: "FindTilePieceOnPosition b (FindNextPiecePosition e UP) = Some t"
  shows "val t \<noteq> val e"
proof -
  let ?f = "\<lambda>r. tile_at b (int r) c"
  let ?k = "length pre"
  have c: "0 \<le> c" "c < width b"
    using split wf_col_line [OF wf, of c] by (auto split: if_splits)
  from split have m: "map ?f [0..<nat (height b)] = pre @ e # post"
    using wf_col_line [OF wf, of c] c by simp
  note s = map_upt_split [OF m]
  have k: "int ?k < height b" using s(3) by simp
  have pe: "position e = \<lparr>row = int ?k, col = c\<rparr>"
    using wf_position_tile_at(1) [OF wf _ k c] s(1) by simp
  then have nxt: "FindNextPiecePosition e UP = \<lparr>row = int ?k - 1, col = c\<rparr>"
    by (simp add: FindNextPiecePosition_def)
  show ?thesis
  proof (cases "?k = 0")
    case True
    then have "\<not> IsPositionOutsideBoard b (FindNextPiecePosition e UP)"
      by (simp add: nxt inside_iff)
    then show ?thesis using found wf_Find_outside [OF wf] by simp
  next
    case False
    then have "FindTilePieceOnPosition b (FindNextPiecePosition e UP) = Some (tile_at b (int ?k - 1) c)"
      unfolding nxt using k c by (intro wf_Find_inside [OF wf]) simp_all
    with found have "t = tile_at b (int ?k - 1) c" by simp
    also have "int ?k - 1 = int (?k - 1)" using False by (cases pre) simp_all
    finally have "t = ?f (?k - 1)" .
    moreover have "?f (?k - 1) \<in> set (map ?f [0..<?k])" using False by simp
    ultimately have "t \<in> set (map ?f [0..<?k])" by (simp only:)
    then have "t \<in> set pre" using s(2) by simp
    then show ?thesis using fresh by (metis imageI)
  qed
qed

lemma FindAllRowMatches_runs:
  assumes wf: "wf_board b"
  shows "\<forall>x \<in> set (boardEffects (FindAllRowMatches b)). axis_run RIGHT b x"
  unfolding FindAllRowMatches_def
proof (rule scan_lines_invariant [where I = "\<lambda>r. \<forall>x \<in> set (boardEffects r). axis_run RIGHT b x"])
  show "\<forall>x \<in> set (boardEffects \<lparr>boardEffects = [], matches = []\<rparr>). axis_run RIGHT b x"
    by simp
next
  fix i pre e post and a :: "'a MatchResult"
  assume i: "i \<in> set (map int [0..<nat (height b)])"
    and split: "FindAllTilePiecesInRow b i = pre @ e # post"
    and fresh: "val e \<notin> val ` set pre"
    and a: "\<forall>x \<in> set (boardEffects a). axis_run RIGHT b x"
  from i have r: "0 \<le> i" "i < height b" by auto
  have "e \<in> set (FindAllTilePiecesInRow b i)" using split by simp
  then have mem: "e \<in> set (tilePieces b)" by (simp add: FindAllTilePiecesInRow_def)
  obtain ts n where res:
    "map position (e # ts) = run_positions RIGHT (position e) (Suc n)"
    "\<forall>t \<in> set ts. val t = val e \<and> t \<in> set (tilePieces b)"
    "AllNeighboursInRowCheck b e =
       (if 2 \<le> n
        then \<lparr>boardEffects = [MatchEffect \<lparr>matched = val e, positions = map position (e # ts)\<rparr>],
              matches = e # ts\<rparr>
        else \<lparr>boardEffects = [], matches = []\<rparr>)"
    using row_check_result [of b e] row_left_stop [OF wf r split fresh] by blast
  have "\<forall>x \<in> set (boardEffects (AllNeighboursInRowCheck b e)). axis_run RIGHT b x"
  proof (cases "2 \<le> n")
    case True
    from axis_run_intro [OF wf mem res(2,1) True] res(3) True show ?thesis by simp
  next
    case False
    with res(3) show ?thesis by simp
  qed
  with a show "\<forall>x \<in> set (boardEffects
        \<lparr>boardEffects = boardEffects a @ boardEffects (AllNeighboursInRowCheck b e),
         matches = matches a @ matches (AllNeighboursInRowCheck b e)\<rparr>). axis_run RIGHT b x"
    by auto
qed

lemma FindAllColumnMatches_runs:
  assumes wf: "wf_board b"
  shows "\<forall>x \<in> set (boardEffects (FindAllColumnMatches b)). axis_run DOWN b x"
  unfolding FindAllColumnMatches_def
proof (rule scan_lines_invariant [where I = "\<lambda>r. \<forall>x \<in> set (boardEffects r). axis_run DOWN b x"])
  show "\<forall>x \<in> set (boardEffects \<lparr>boardEffects = [], matches = []\<rparr>). axis_run DOWN b x"
    by simp
next
  fix i pre e post and a :: "'a MatchResult"
  assume split: "FindAllTilePiecesInColumn b i = pre @ e # post"
    and fresh: "val e \<notin> val ` set pre"
    and a: "\<forall>x \<in> set (boardEffects a). axis_run DOWN b x"
  have "e \<in> set (FindAllTilePiecesInColumn b i)" using split by simp
  then have mem: "e \<in> set (tilePieces b)" by (simp add: FindAllTilePiecesInColumn_def)
  obtain ts n where res:
    "map position (e # ts) = run_positions DOWN (position e) (Suc n)"
    "\<forall>t \<in> set ts. val t = val e \<and> t \<in> set (tilePieces b)"
    "AllNeighboursInColCheck b e =
       (if 2 \<le> n
        then \<lparr>boardEffects = [MatchEffect \<lparr>matched = val e, positions = map position (e # ts)\<rparr>],
              matches = e # ts\<rparr>
        else \<lparr>boardEffects = [], matches = []\<rparr>)"
    using col_check_result [of b e] col_up_stop [OF wf split fresh] by blast
  have "\<forall>x \<in> set (boardEffects (AllNeighboursInColCheck b e)). axis_run DOWN b x"
  proof (cases "2 \<le> n")
    case True
    from axis_run_intro [OF wf mem res(2,1) True] res(3) True show ?thesis by simp
  next
    case False
    with res(3) show ?thesis by simp
  qed
  with a show "\<forall>x \<in> set (boardEffects
        \<lparr>boardEffects = boardEffects a @ boardEffects (AllNeighboursInColCheck b e),
         matches = matches a @ matches (AllNeighboursInColCheck b e)\<rparr>). axis_run DOWN b x"
    by auto
qed

text \<open>On any board a scan reports a match effect exactly when it reports matched tiles.\<close>

lemma row_check_consistent:
  "(matches (AllNeighboursInRowCheck b e) = []) = (boardEffects (AllNeighboursInRowCheck b e) = [])"
  by (simp add: AllNeighboursInRowCheck_def CreateBoardEffectForMatch_def Let_def)

lemma col_check_consistent:
  "(matches (AllNeighboursInColCheck b e) = []) = (boardEffects (AllNeighboursInColCheck b e) = [])"
  by (simp add: AllNeighboursInColCheck_def CreateBoardEffectForMatch_def Let_def)

lemma scan_lines_consistent:
  assumes "\<And>e. (matches (check e) = []) = (boardEffects (check e) = [])"
  shows "(matches (scan_lines line check is \<lparr>boardEffects = [], matches = []\<rparr>) = [])
         = (boardEffects (scan_lines line check is \<lparr>boardEffects = [], matches = []\<rparr>) = [])"
  by (rule scan_lines_invariant [where I = "\<lambda>r. (matches r = []) = (boardEffects r = [])"])
     (simp_all add: assms)

lemma FindAllRowMatches_consistent:
  "(matches (FindAllRowMatches b) = []) = (boardEffects (FindAllRowMatches b) = [])"
  unfolding FindAllRowMatches_def by (rule scan_lines_consistent) (rule row_check_consistent)

lemma FindAllColumnMatches_consistent:
  "(matches (FindAllColumnMatches b) = []) = (boardEffects (FindAllColumnMatches b) = [])"
  unfolding FindAllColumnMatches_def by (rule scan_lines_consistent) (rule col_check_consistent)

text \<open>Every matched tile is a tile of the board.\<close>

lemma CheckNeighbours_members:
  "set (CheckNeighbours b (FindTilePieceOnPosition b p) [] v d) \<subseteq> set (tilePieces b)"
  using CheckNeighbours_run [of b p "[]" v d] by auto

lemma row_check_members:
  "e \<in> set (tilePieces b) \<Longrightarrow> set (matches (AllNeighboursInRowCheck b e)) \<subseteq> set (tilePieces b)"
  using CheckNeighbours_members [of b "FindNextPiecePosition e LEFT" "val e" LEFT]
    CheckNeighbours_members [of b "FindNextPiecePosition e RIGHT" "val e" RIGHT]
  by (simp add: AllNeighboursInRowCheck_def CreateBoardEffectForMatch_def Let_def)

lemma col_check_members:
  "e \<in> set (tilePieces b) \<Longrightarrow> set (matches (AllNeighboursInColCheck b e)) \<subseteq> set (tilePieces b)"
  using CheckNeighbours_members [of b "FindNextPiecePosition e UP" "val e" UP]
    CheckNeighbours_members [of b "FindNextPiecePosition e DOWN" "val e" DOWN]
  by (simp add: AllNeighboursInColCheck_def CreateBoardEffectForMatch_def Let_def)

lemma FindAllRowMatches_members:
  "set (matches (FindAllRowMatches b)) \<subseteq> set (tilePieces b)"
  unfolding FindAllRowMatches_def
proof (rule scan_lines_invariant [where I = "\<lambda>r. set (matches r) \<subseteq> set (tilePieces b)"])
  fix i pre e post and a :: "'a MatchResult"
  assume "FindAllTilePiecesInRow b i = pre @ e # post" "set (matches a) \<subseteq> set (tilePieces b)"
  moreover from this have "e \<in> set (FindAllTilePiecesInRow b i)" by simp
  then have "e \<in> set (tilePieces b)" by (simp add: FindAllTilePiecesInRow_def)
  ultimately show "set (matches \<lparr>boardEffects = boardEffects a @ boardEffects (AllNeighboursInRowCheck b e),
         matches = matches a @ matches (AllNeighboursInRowCheck b e)\<rparr>) \<subseteq> set (tilePieces b)"
    using row_check_members [of e b] by simp
qed simp

lemma FindAllColumnMatches_members:
  "set (matches (FindAllColumnMatches b)) \<subseteq> set (tilePieces b)"
  unfolding FindAllColumnMatches_def
proof (rule scan_lines_invariant [where I = "\<lambda>r. set (matches r) \<subseteq> set (tilePieces b)"])
  fix i pre e post and a :: "'a MatchResult"
  assume "FindAllTilePiecesInColumn b i = pre @ e # post" "set (matches a) \<subseteq> set (tilePieces b)"
  moreover from this have "e \<in> set (FindAllTilePiecesInColumn b i)" by simp
  then have "e \<in> set (tilePieces b)" by (simp add: FindAllTilePiecesInColumn_def)
  ultimately show "set (matches \<lparr>boardEffects = boardEffects a @ boardEffects (AllNeighboursInColCheck b e),
         matches = matches a @ matches (AllNeighboursInColCheck b e)\<rparr>) \<subseteq> set (tilePieces b)"
    using col_check_members [of e b] by simp
qed simp

text \<open>The column past the last one is empty.\<close>

lemma wf_column_width_empty:
  "wf_board b \<Longrightarrow> FindAllTilePiecesInColumn b (width b) = []"
  by (simp add: wf_col_line)

lemma column_scan_indices:
  "rev (map int [0..<nat (w + 1)]) = (if 0 \<le> w then w # rev (map int [0..<nat w]) else [])"
proof (cases "0 \<le> w")
  case True
  then have "nat (w + 1) = Suc (nat w)" by simp
  with True show ?thesis by simp
next
  case False
  then show ?thesis by simp
qed


section \<open>The cascade\<close>

lemma same_frame_refl: "same_frame b b"
  by (simp add: same_frame_def)

lemma same_frame_trans: "same_frame a b \<Longrightarrow> same_frame b c \<Longrightarrow> same_frame a c"
  by (simp add: same_frame_def)

lemma wf_same_frame: "wf_board b \<Longrightarrow> same_frame b b' \<Longrightarrow> wf_board b'"
  by (simp add: same_frame_def wf_board_def)

lemma SwapPieces_same_frame: "SwapPieces b p q = Inr b1 \<Longrightarrow> same_frame b b1"
  by (simp add: same_frame_def SwapPieces_frame)

lemma MatchValuesRemoved_same_frame: "same_frame b (MatchValuesRemoved rs cs b)"
  by (simp add: same_frame_def MatchValuesRemoved_def comp_def if_distrib [of position] cong: if_cong)

lemma setValueOnPosition_same_frame:
  assumes "setValueOnPosition b p v = Inr b1"
  shows "same_frame b b1"
proof -
  have "map position (xs[i := (xs ! i)\<lparr>val := v\<rparr>]) = map position xs" for xs :: "'a TilePiece list" and i
    using map_position_update2 [of "(xs ! i)\<lparr>val := v\<rparr>" xs i "(xs ! i)\<lparr>val := v\<rparr>" i] by simp
  with assms show ?thesis
    by (auto simp: setValueOnPosition_def same_frame_def split: option.splits)
qed

lemma ShiftElementsInColumn_loop_same_frame:
  "ShiftElementsInColumn_loop b rs c = Inr b1 \<Longrightarrow> same_frame b b1"
proof (induction rs arbitrary: b)
  case Nil
  then show ?case by (simp add: same_frame_refl)
next
  case (Cons r rs)
  then show ?case
    by (auto split: sum.splits dest: SwapPieces_same_frame intro: same_frame_trans)
qed

lemma ShiftElementsInColumn_same_frame:
  "ShiftElementsInColumn b r c = Inr b1 \<Longrightarrow> same_frame b b1"
  unfolding ShiftElementsInColumn_def by (rule ShiftElementsInColumn_loop_same_frame)

lemma UpdateBoard_cell_same_frame:
  assumes "UpdateBoard_cell nxt r c (b, g) = Inr (b1, g1)"
  shows "same_frame b b1"
  using assms
  by (auto simp: UpdateBoard_cell_def same_frame_refl
      split: option.splits if_splits sum.splits prod.splits
      dest!: ShiftElementsInColumn_same_frame setValueOnPosition_same_frame
      intro: same_frame_trans)

lemma UpdateBoard_cols_same_frame:
  "UpdateBoard_cols nxt r cs (b, g) = Inr (b1, g1) \<Longrightarrow> same_frame b b1"
proof (induction cs arbitrary: b g)
  case Nil
  then show ?case by (simp add: same_frame_refl)
next
  case (Cons c cs)
  then show ?case
    by (auto split: sum.splits dest: UpdateBoard_cell_same_frame intro: same_frame_trans)
qed

lemma UpdateBoard_rows_same_frame:
  "UpdateBoard_rows nxt rs (b, g) = Inr (b1, g1) \<Longrightarrow> same_frame b b1"
proof (induction rs arbitrary: b g)
  case Nil
  then show ?case by (simp add: same_frame_refl)
next
  case (Cons r rs)
  then show ?case
    by (auto split: sum.splits dest: UpdateBoard_cols_same_frame intro: same_frame_trans)
qed

lemma UpdateBoard_pass_same_frame:
  "UpdateBoard_pass nxt b g = Inr (b1, g1) \<Longrightarrow> same_frame b b1"
  unfolding UpdateBoard_pass_def by (rule UpdateBoard_rows_same_frame)

lemma axis_run_match_along: "axis_run d b e \<Longrightarrow> match_along d e"
  unfolding axis_run_def match_along_def by blast

lemma no_match_found_effects:
  assumes "no_match_found b"
  shows "boardEffects (FindAllRowMatches b) = []" "boardEffects (FindAllColumnMatches b) = []"
  using assms FindAllRowMatches_consistent [of b] FindAllColumnMatches_consistent [of b]
  by (simp_all add: no_match_found_def)

lemma pass_block_found:
  assumes "wf_board b" "\<not> no_match_found b"
  shows "pass_block (boardEffects (FindAllRowMatches b) @ boardEffects (FindAllColumnMatches b) @ [Refill])"
proof -
  have "boardEffects (FindAllRowMatches b) @ boardEffects (FindAllColumnMatches b) \<noteq> []"
    using assms(2) FindAllRowMatches_consistent [of b] FindAllColumnMatches_consistent [of b]
    by (auto simp: no_match_found_def)
  moreover have "\<forall>e \<in> set (boardEffects (FindAllRowMatches b)). match_along RIGHT e"
    using FindAllRowMatches_runs [OF assms(1)] by (blast intro: axis_run_match_along)
  moreover have "\<forall>e \<in> set (boardEffects (FindAllColumnMatches b)). match_along DOWN e"
    using FindAllColumnMatches_runs [OF assms(1)] by (blast intro: axis_run_match_along)
  ultimately show ?thesis unfolding pass_block_def by blast
qed

text \<open>What a cascade that returns has done.\<close>

lemma CheckBoard_cascade:
  assumes "CheckBoard nxt b g effs fn = Some y"
  shows "fn = MatchValuesRemoved \<longrightarrow> wf_board b \<longrightarrow>
         (\<forall>g' res. y = Inr (g', res) \<longrightarrow>
            (\<exists>blocks. effects res = effs @ concat blocks
               \<and> (\<forall>blk \<in> set blocks. pass_block blk)
               \<and> (blocks = [] \<longleftrightarrow> no_match_found b)
               \<and> same_frame b (board res) \<and> no_match_found (board res)))"
  using assms
proof (induction nxt b g effs fn y rule: CheckBoard.raw_induct [rotated 1, consumes 1])
  case (1 CheckBoard' nxt b g effs fn y)
  show ?case
  proof (intro impI allI)
    fix g' res
    assume fn: "fn = MatchValuesRemoved" and wf: "wf_board b" and y: "y = Inr (g', res)"
    let ?rows = "FindAllRowMatches b" and ?cols = "FindAllColumnMatches b"
    show "\<exists>blocks. effects res = effs @ concat blocks
               \<and> (\<forall>blk \<in> set blocks. pass_block blk)
               \<and> (blocks = [] \<longleftrightarrow> no_match_found b)
               \<and> same_frame b (board res) \<and> no_match_found (board res)"
    proof (cases "no_match_found b")
      case True
      then have "res = \<lparr>board = b, effects = effs\<rparr>"
        using "1.hyps" y no_match_found_effects [OF True]
        by (simp add: Let_def no_match_found_def)
      then show ?thesis
        using True by (intro exI [of _ "[]"]) (simp add: same_frame_refl)
    next
      case False
      let ?b0 = "MatchValuesRemoved (matches ?rows) (matches ?cols) b"
      let ?blk = "boardEffects ?rows @ boardEffects ?cols @ [Refill]"
      from False "1.hyps" y fn obtain b1 g1 where
        pass: "UpdateBoard_pass nxt ?b0 g = Inr (b1, g1)" and
        rec: "CheckBoard' nxt b1 g1 ((effs @ boardEffects ?rows) @ boardEffects ?cols @ [Refill])
                MatchValuesRemoved = Some (Inr (g', res))"
        by (auto simp: Let_def no_match_found_def split: sum.splits)
      have fr: "same_frame b b1"
        using MatchValuesRemoved_same_frame UpdateBoard_pass_same_frame [OF pass]
        by (rule same_frame_trans)
      then have wf1: "wf_board b1" using wf by (rule wf_same_frame [rotated])
      from "1.IH" [OF rec] wf1 obtain blocks where
        b: "effects res = ((effs @ boardEffects ?rows) @ boardEffects ?cols @ [Refill]) @ concat blocks"
           "\<forall>blk \<in> set blocks. pass_block blk"
           "same_frame b1 (board res)" "no_match_found (board res)"
        by blast
      have "effects res = effs @ concat (?blk # blocks)" using b(1) by simp
      moreover have "\<forall>blk \<in> set (?blk # blocks). pass_block blk"
        using b(2) pass_block_found [OF wf False] by simp
      moreover have "same_frame b (board res)" using fr b(3) by (rule same_frame_trans)
      ultimately show ?thesis using False b(4) by blast
    qed
  qed
qed

lemma IsMoveLegal_TrueD:
  assumes "IsMoveLegal b p q = Inr (b', True)"
  shows "\<exists>b1. SwapPieces b p q = Inr b1 \<and> \<not> no_match_found b1"
  using assms
  by (auto simp: IsMoveLegal_def Let_def no_match_found_def split: if_splits sum.splits)

lemma move_illegal:
  assumes "IsMoveLegal b p q = Inr (b', False)"
  shows "move nxt g b p q = Some (Inr (g, \<lparr>board = b, effects = []\<rparr>))"
  using assms IsMoveLegal_board [OF assms] by (simp add: move_def)

lemma concat_blocks_last:
  assumes "blocks \<noteq> []" "\<forall>blk \<in> set blocks. pass_block blk"
  shows "concat blocks \<noteq> []" and "last (concat blocks) = Refill"
proof -
  from assms(1) obtain bs blk where bl: "blocks = bs @ [blk]"
    by (metis rev_exhaust)
  with assms(2) have "pass_block blk" by simp
  then obtain xs where blk: "blk = xs @ [Refill]"
    unfolding pass_block_def by (metis append.assoc)
  have c: "concat blocks = (concat bs @ xs) @ [Refill]"
    by (simp add: bl blk)
  show "concat blocks \<noteq> []" unfolding c by simp
  show "last (concat blocks) = Refill" unfolding c by (rule last_snoc)
qed

lemma move_legal:
  assumes legal: "IsMoveLegal b p q = Inr (b', True)" and wf: "wf_board b"
    and ret: "move nxt g b p q = Some (Inr (g', res))"
  shows "\<exists>blocks. blocks \<noteq> [] \<and> effects res = concat blocks
           \<and> (\<forall>blk \<in> set blocks. pass_block blk)
           \<and> same_frame b (board res) \<and> no_match_found (board res)"
proof -
  have b': "b' = b" using legal by (rule IsMoveLegal_board)
  from IsMoveLegal_TrueD [OF legal] obtain b1 where
    sw: "SwapPieces b p q = Inr b1" and found: "\<not> no_match_found b1" by blast
  have fr: "same_frame b b1" using sw by (rule SwapPieces_same_frame)
  then have wf1: "wf_board b1" using wf by (rule wf_same_frame [rotated])
  have "CheckBoard nxt b1 g [] MatchValuesRemoved = Some (Inr (g', res))"
    using ret legal sw by (simp add: move_def b')
  from CheckBoard_cascade [OF this] wf1 obtain blocks where
    bl: "effects res = [] @ concat blocks" "\<forall>blk \<in> set blocks. pass_block blk"
        "(blocks = []) = no_match_found b1" "same_frame b1 (board res)"
        "no_match_found (board res)"
    by blast
  have "same_frame b (board res)" using fr bl(4) by (rule same_frame_trans)
  with bl found show ?thesis by (intro exI [of _ blocks]) simp
qed

lemma fixture_3x4_move:
  "move GeneratorFake_next [''B'', ''C'', ''D''] fixture_3x4
     \<lparr>row = 0, col = 1\<rparr> \<lparr>row = 2, col = 1\<rparr>
   = Some (Inr ([], \<lparr>board = fixture_3x4_after, effects = fixture_3x4_effects\<rparr>))"
  by code_simp

lemma move_blocks:
  assumes "wf_board b" and "move nxt g b p q = Some (Inr (g', res))"
  shows "\<exists>blocks. effects res = concat blocks
           \<and> (\<forall>blk \<in> set blocks. pass_block blk)
           \<and> (blocks \<noteq> [] \<longleftrightarrow> canMove b p q = Inr (b, True))
           \<and> (blocks \<noteq> [] \<longrightarrow> last (effects res) = Refill)"
proof -
  from wf_IsMoveLegal_total [OF assms(1)] obtain legal where
    l: "IsMoveLegal b p q = Inr (b, legal)" by blast
  show ?thesis
  proof (cases legal)
    case False
    with l assms(2) have "effects res = []" by (auto simp: move_illegal)
    with l False show ?thesis
      by (intro exI [of _ "[]"]) (simp add: canMove_def)
  next
    case True
    with l have lt: "IsMoveLegal b p q = Inr (b, True)" by simp
    from move_legal [OF lt assms] obtain blocks where
      bl: "blocks \<noteq> []" "effects res = concat blocks" "\<forall>blk \<in> set blocks. pass_block blk"
      by blast
    with l True concat_blocks_last(2) [OF bl(1,3)] show ?thesis
      by (intro exI [of _ blocks]) (simp add: canMove_def)
  qed
qed

text \<open>A move that returns leaves a well-formed board.\<close>

lemma move_wf:
  assumes "wf_board b" and "move nxt g b p q = Some (Inr (g', res))"
  shows "wf_board (board res)"
proof -
  from wf_IsMoveLegal_total [OF assms(1)] obtain legal where
    l: "IsMoveLegal b p q = Inr (b, legal)" by blast
  show ?thesis
  proof (cases legal)
    case False
    with l assms show ?thesis by (auto simp: move_illegal)
  next
    case True
    with l have lt: "IsMoveLegal b p q = Inr (b, True)" by simp
    from move_legal [OF lt assms] show ?thesis
      using assms(1) by (blast intro: wf_same_frame)
  qed
qed


section \<open>Termination of the cascade\<close>

lemma UpdateBoard_cell_consumes:
  assumes "UpdateBoard_cell GeneratorFake_next r c (b, g) = Inr (b', g')"
  shows "length g' \<le> length g"
    and "length g' = length g \<Longrightarrow> b' = b \<and> has_value_at b r c"
proof -
  from assms obtain t where t: "FindTilePieceOnPosition b \<lparr>row = r, col = c\<rparr> = Some t"
    by (auto simp: UpdateBoard_cell_def split: option.splits)
  show "length g' \<le> length g"
    using assms t
    by (cases g) (auto simp: UpdateBoard_cell_def split: if_splits sum.splits)
  show "b' = b \<and> has_value_at b r c" if "length g' = length g"
    using assms t that
    by (cases g) (auto simp: UpdateBoard_cell_def has_value_at_def split: if_splits sum.splits)
qed

lemma UpdateBoard_cols_consumes:
  "UpdateBoard_cols GeneratorFake_next r cs (b, g) = Inr (b', g') \<Longrightarrow>
   length g' \<le> length g
   \<and> (length g' = length g \<longrightarrow> b' = b \<and> (\<forall>c \<in> set cs. has_value_at b r c))"
proof (induction cs arbitrary: b g)
  case Nil
  then show ?case by simp
next
  case (Cons c cs)
  from Cons.prems obtain b1 g1 where
    cell: "UpdateBoard_cell GeneratorFake_next r c (b, g) = Inr (b1, g1)" and
    rest: "UpdateBoard_cols GeneratorFake_next r cs (b1, g1) = Inr (b', g')"
    by (auto split: sum.splits)
  note c = UpdateBoard_cell_consumes [OF cell] and ih = Cons.IH [OF rest]
  show ?case
  proof (intro conjI impI)
    show "length g' \<le> length g" using c(1) ih by simp
    assume eq: "length g' = length g"
    then have "length g1 = length g" using c(1) ih by simp
    with c(2) have "b1 = b" "has_value_at b r c" by simp_all
    moreover from eq \<open>length g1 = length g\<close> ih
    have "b' = b1" "\<forall>c \<in> set cs. has_value_at b1 r c" by simp_all
    ultimately show "b' = b" "\<forall>c \<in> set (c # cs). has_value_at b r c" by simp_all
  qed
qed

lemma UpdateBoard_rows_consumes:
  "UpdateBoard_rows GeneratorFake_next rs (b, g) = Inr (b', g') \<Longrightarrow>
   length g' \<le> length g
   \<and> (length g' = length g \<longrightarrow>
        b' = b \<and> (\<forall>r \<in> set rs. \<forall>c \<in> set (map int [0..<nat (width b)]). has_value_at b r c))"
proof (induction rs arbitrary: b g)
  case Nil
  then show ?case by simp
next
  case (Cons r rs)
  from Cons.prems obtain b1 g1 where
    cols: "UpdateBoard_cols GeneratorFake_next r (map int [0..<nat (width b)]) (b, g) = Inr (b1, g1)" and
    rest: "UpdateBoard_rows GeneratorFake_next rs (b1, g1) = Inr (b', g')"
    by (auto split: sum.splits)
  note c = UpdateBoard_cols_consumes [OF cols] and ih = Cons.IH [OF rest]
  show ?case
  proof (intro conjI impI)
    show "length g' \<le> length g" using c ih by simp
    assume eq: "length g' = length g"
    then have g1: "length g1 = length g" using c ih by simp
    with c have 1: "b1 = b" "\<forall>c \<in> set (map int [0..<nat (width b)]). has_value_at b r c"
      by simp_all
    from eq g1 ih have 2: "b' = b1"
      "\<forall>r \<in> set rs. \<forall>c \<in> set (map int [0..<nat (width b1)]). has_value_at b1 r c"
      by simp_all
    from 1 2 show "b' = b" by simp
    from 1 2 show "\<forall>r \<in> set (r # rs). \<forall>c \<in> set (map int [0..<nat (width b)]). has_value_at b r c"
      by simp
  qed
qed

text \<open>A pass over a well-formed board with an empty tile takes a value from the queue.\<close>

lemma UpdateBoard_pass_consumes:
  assumes wf: "wf_board b" and pass: "UpdateBoard_pass GeneratorFake_next b g = Inr (b', g')"
    and t: "t \<in> set (tilePieces b)" "val t = None"
  shows "length g' < length g"
proof (rule ccontr)
  assume "\<not> length g' < length g"
  with UpdateBoard_rows_consumes [OF pass [unfolded UpdateBoard_pass_def]]
  have all: "\<forall>r \<in> set (map int [0..<nat (height b)]).
               \<forall>c \<in> set (map int [0..<nat (width b)]). has_value_at b r c"
    by simp
  have ins: "IsPositionOutsideBoard b (position t)"
    and f: "FindTilePieceOnPosition b (position t) = Some t"
    using wf_tilePiece_member [OF wf t(1)] by simp_all
  from ins have "row (position t) \<in> set (map int [0..<nat (height b)])"
    "col (position t) \<in> set (map int [0..<nat (width b)])"
    by (auto simp: inside_iff image_iff intro: bexI [of _ "nat (row (position t))"]
        bexI [of _ "nat (col (position t))"])
  with all have "has_value_at b (row (position t)) (col (position t))" by blast
  moreover have "\<lparr>row = row (position t), col = col (position t)\<rparr> = position t"
    by (cases "position t") simp
  ultimately show False using f t(2) by (simp add: has_value_at_def)
qed

lemma MatchValuesRemoved_empties:
  assumes "\<not> no_match_found b"
  shows "\<exists>t \<in> set (tilePieces (MatchValuesRemoved (matches (FindAllRowMatches b))
                                  (matches (FindAllColumnMatches b)) b)). val t = None"
proof -
  let ?ms = "matches (FindAllRowMatches b) @ matches (FindAllColumnMatches b)"
  from assms have "?ms \<noteq> []" by (simp add: no_match_found_def)
  then obtain m where m: "m \<in> set ?ms" by (meson last_in_set)
  then have mem: "m \<in> set (tilePieces b)"
    using FindAllRowMatches_members [of b] FindAllColumnMatches_members [of b] by auto
  have pos: "position m \<in> set (map position ?ms)"
    using m by (simp only: set_map) (rule imageI)
  define F :: "'a TilePiece \<Rightarrow> 'a TilePiece"
    where "F = (\<lambda>t. if position t \<in> set (map position ?ms) then t\<lparr>val := None\<rparr> else t)"
  have "F m \<in> set (map F (tilePieces b))" using mem by simp
  moreover have "val (F m) = None" using pos by (simp add: F_def)
  moreover have "tilePieces (MatchValuesRemoved (matches (FindAllRowMatches b))
                    (matches (FindAllColumnMatches b)) b) = map F (tilePieces b)"
    by (simp add: MatchValuesRemoved_def F_def)
  ultimately show ?thesis by metis
qed

text \<open>With a finite queue as the generator the cascade ends: it returns or it throws.\<close>

lemma CheckBoard_terminates:
  assumes "wf_board b"
  shows "\<exists>y. CheckBoard GeneratorFake_next b g effs MatchValuesRemoved = Some y"
  using assms
proof (induction "length g" arbitrary: b g effs rule: less_induct)
  case less
  let ?b0 = "MatchValuesRemoved (matches (FindAllRowMatches b)) (matches (FindAllColumnMatches b)) b"
  show ?case
  proof (cases "no_match_found b")
    case True
    then show ?thesis
      by (subst CheckBoard.simps) (simp add: Let_def no_match_found_def)
  next
    case False
    show ?thesis
    proof (cases "UpdateBoard_pass GeneratorFake_next ?b0 g")
      case (Inl e)
      with False show ?thesis
        by (subst CheckBoard.simps) (auto simp: Let_def no_match_found_def)
    next
      case (Inr s)
      obtain b1 g1 where s: "s = (b1, g1)" by (cases s)
      have wf0: "wf_board ?b0"
        using less.prems MatchValuesRemoved_same_frame by (rule wf_same_frame)
      have wf1: "wf_board b1"
        using wf0 UpdateBoard_pass_same_frame [OF Inr [unfolded s]] by (rule wf_same_frame)
      from MatchValuesRemoved_empties [OF False] obtain t where
        "t \<in> set (tilePieces ?b0)" "val t = None" by blast
      from UpdateBoard_pass_consumes [OF wf0 Inr [unfolded s] this]
      have "length g1 < length g" .
      from less.hyps [OF this wf1] obtain y where
        "CheckBoard GeneratorFake_next b1 g1
           ((effs @ boardEffects (FindAllRowMatches b)) @ boardEffects (FindAllColumnMatches b) @ [Refill])
           MatchValuesRemoved = Some y"
        by blast
      with False Inr s show ?thesis
        by (subst CheckBoard.simps) (auto simp: Let_def no_match_found_def)
    qed
  qed
qed

lemma move_terminates:
  assumes "wf_board b"
  shows "\<exists>y. move GeneratorFake_next g b p q = Some y"
proof -
  from wf_IsMoveLegal_total [OF assms] obtain legal where
    l: "IsMoveLegal b p q = Inr (b, legal)" by blast
  show ?thesis
  proof (cases legal)
    case False
    with l show ?thesis by (simp add: move_def)
  next
    case True
    with l have "IsMoveLegal b p q = Inr (b, True)" by simp
    from IsMoveLegal_TrueD [OF this] obtain b1 where sw: "SwapPieces b p q = Inr b1"
      by blast
    then have "wf_board b1"
      using assms SwapPieces_same_frame by (blast intro: wf_same_frame)
    from CheckBoard_terminates [OF this] l True sw show ?thesis
      by (simp add: move_def)
  qed
qed


section \<open>The object-oriented variant\<close>

lemma FindTilePieceAtPosition_eq: "FindTilePieceAtPosition b p = FindTilePieceOnPosition b p"
  unfolding FindTilePieceAtPosition_def FindTilePieceOnPosition_def
  by (rule find_cong) auto

lemma IsPositionWithinBoard_eq: "IsPositionWithinBoard b p = IsPositionOutsideBoard b p"
  by (auto simp: IsPositionWithinBoard_def IsPositionOutsideBoard_def)

lemma SwapTilePieces_eq: "SwapTilePieces b p q = SwapPieces b p q"
  by (simp add: SwapTilePieces_def SwapPieces_def FindTilePieceAtPosition_eq)

lemma piece_eq: "piece b p = tilePiece b p"
  by (simp add: piece_def tilePiece_def FindTilePieceAtPosition_eq IsPositionWithinBoard_eq)

lemma FindPiecesInCol_eq: "FindPiecesInCol b i = FindAllTilePiecesInColumn b i"
  by (simp add: FindPiecesInCol_def FindAllTilePiecesInColumn_def)

lemma swap_vals_back:
  assumes "i < length xs" "j < length xs"
  shows "(xs[i := (xs ! i)\<lparr>val := val (xs ! j)\<rparr>, j := (xs ! j)\<lparr>val := val (xs ! i)\<rparr>])
           [j := (xs[i := (xs ! i)\<lparr>val := val (xs ! j)\<rparr>, j := (xs ! j)\<lparr>val := val (xs ! i)\<rparr>] ! j)
                   \<lparr>val := val (xs[i := (xs ! i)\<lparr>val := val (xs ! j)\<rparr>, j := (xs ! j)\<lparr>val := val (xs ! i)\<rparr>] ! i)\<rparr>,
            i := (xs[i := (xs ! i)\<lparr>val := val (xs ! j)\<rparr>, j := (xs ! j)\<lparr>val := val (xs ! i)\<rparr>] ! i)
                   \<lparr>val := val (xs[i := (xs ! i)\<lparr>val := val (xs ! j)\<rparr>, j := (xs ! j)\<lparr>val := val (xs ! i)\<rparr>] ! j)\<rparr>]
         = xs"
  using assms by (intro nth_equalityI) (auto simp: nth_list_update)

lemma SwapPieces_back:
  assumes "SwapPieces b p q = Inr b1"
  shows "SwapPieces b1 q p = Inr b"
proof -
  define xs1 where "xs1 = tilePieces b1"
  from assms obtain i j where
    i: "first_index (at_position p) (tilePieces b) = Some i" and
    j: "first_index (at_position q) (tilePieces b) = Some j" and
    b1: "b1 = b\<lparr>tilePieces :=
                 (tilePieces b)[i := (tilePieces b ! i)\<lparr>val := val (tilePieces b ! j)\<rparr>,
                                j := (tilePieces b ! j)\<lparr>val := val (tilePieces b ! i)\<rparr>]\<rparr>"
    by (auto simp: SwapPieces_eq split: option.splits)
  have il: "i < length (tilePieces b)" and jl: "j < length (tilePieces b)"
    using i j by (auto dest: first_index_SomeD)
  have pos: "map position (tilePieces b1) = map position (tilePieces b)"
    using assms by (rule SwapPieces_frame)
  have i1: "first_index (at_position p) (tilePieces b1) = Some i"
    and j1: "first_index (at_position q) (tilePieces b1) = Some j"
    using i j first_index_positions_cong [OF pos] by simp_all
  have "xs1[j := (xs1 ! j)\<lparr>val := val (xs1 ! i)\<rparr>, i := (xs1 ! i)\<lparr>val := val (xs1 ! j)\<rparr>]
        = tilePieces b"
    unfolding xs1_def b1 using swap_vals_back [OF il jl] by simp
  moreover have "b1\<lparr>tilePieces := tilePieces b\<rparr> = b" by (simp add: b1)
  ultimately show ?thesis
    unfolding SwapPieces_eq i1 j1 xs1_def by simp
qed

lemma scan_lines_oo_invariant:
  assumes "I acc"
    and step: "\<And>e a. I a \<Longrightarrow>
            I \<lparr>boardEffects = boardEffects a @ boardEffects (check e),
               matches = matches a @ matches (check e)\<rparr>"
  shows "I (scan_lines_oo line check is acc)"
  using assms(1)
proof (induction "is" arbitrary: acc)
  case Nil
  then show ?case by simp
next
  case (Cons i "is")
  have "I (scan_line_oo check ts a)" if "I a" for ts a
    using that by (induction ts arbitrary: a) (auto simp: Let_def intro: step)
  with Cons show ?case by simp
qed

lemma FindRowMatches_silent: "boardEffects (FindRowMatches False b) = []"
  unfolding FindRowMatches_def
  by (rule scan_lines_oo_invariant [where I = "\<lambda>r. boardEffects r = []"])
     (simp_all add: AllNeighboursInRowCheck_oo_def Let_def)

lemma FindColMatches_silent: "boardEffects (FindColMatches False b) = []"
  unfolding FindColMatches_def
  by (rule scan_lines_oo_invariant [where I = "\<lambda>r. boardEffects r = []"])
     (simp_all add: AllNeighboursInColCheck_oo_def Let_def)

lemma IsAnyMatch_silent:
  assumes "isEventsEnabled this = False"
  shows "fst (IsAnyMatch this) = this"
  using assms
  by (simp add: IsAnyMatch_def Let_def emit_def FindRowMatches_silent FindColMatches_silent)

lemma IsMoveLegal_oo_object:
  assumes "IsMoveLegal_oo this p q = Inr (this', r)" "isEventsEnabled this = False"
  shows "this' = this"
proof (cases "IsSameTile p q \<or> \<not> IsTileSameRowOrColumn p q
    \<or> \<not> IsPositionWithinBoard (grid this) p \<or> \<not> IsPositionWithinBoard (grid this) q")
  case True
  with assms(1) show ?thesis by (auto simp: IsMoveLegal_oo_def split: if_splits)
next
  case False
  with assms(1) have m: "MoveResultInMatches this p q = Inr (this', r)"
    by (simp add: IsMoveLegal_oo_def)
  then obtain g1 where g1: "SwapPieces (grid this) p q = Inr g1"
    by (auto simp: MoveResultInMatches_def SwapTilePieces_eq split: sum.splits)
  have s: "fst (IsAnyMatch (this\<lparr>grid := g1\<rparr>)) = this\<lparr>grid := g1\<rparr>"
    using assms(2) by (intro IsAnyMatch_silent) simp
  from SwapPieces_back [OF g1] m g1 s show ?thesis
    by (auto simp: MoveResultInMatches_def SwapTilePieces_eq split: prod.splits sum.splits)
qed

lemma wf_IsMoveLegal_oo_total:
  assumes "wf_board (grid this)" "isEventsEnabled this = False"
  shows "\<exists>r. IsMoveLegal_oo this p q = Inr (this, r)"
proof (cases "IsSameTile p q \<or> \<not> IsTileSameRowOrColumn p q
    \<or> \<not> IsPositionWithinBoard (grid this) p \<or> \<not> IsPositionWithinBoard (grid this) q")
  case True
  then show ?thesis by (auto simp: IsMoveLegal_oo_def)
next
  case False
  then obtain g1 where g1: "SwapPieces (grid this) p q = Inr g1"
    using wf_SwapPieces_total [OF assms(1), of p q] by (auto simp: IsPositionWithinBoard_eq)
  obtain this1 r where a: "IsAnyMatch (this\<lparr>grid := g1\<rparr>) = (this1, r)"
    by (cases "IsAnyMatch (this\<lparr>grid := g1\<rparr>)")
  have "fst (IsAnyMatch (this\<lparr>grid := g1\<rparr>)) = this\<lparr>grid := g1\<rparr>"
    using assms(2) by (intro IsAnyMatch_silent) simp
  with a have this1: "this1 = this\<lparr>grid := g1\<rparr>" by simp
  from False g1 a SwapPieces_back [OF g1] show ?thesis
    by (auto simp: IsMoveLegal_oo_def MoveResultInMatches_def SwapTilePieces_eq this1)
qed

lemma column_scan_oo_extra_index:
  assumes "wf_board b"
  shows "FindColMatches ev b
         = scan_lines_oo (FindPiecesInCol b) (AllNeighboursInColCheck_oo ev b)
             (rev (map int [0..<nat (width b)])) \<lparr>boardEffects = [], matches = []\<rparr>"
  using assms
  by (simp add: FindColMatches_def column_scan_indices FindPiecesInCol_eq wf_column_width_empty)

lemma IsAnyMatch_grid: "grid (fst (IsAnyMatch this)) = grid this"
  by (simp add: IsAnyMatch_def Let_def emit_def)

lemma IsMoveLegal_oo_grid:
  assumes "IsMoveLegal_oo this p q = Inr (this', r)"
  shows "grid this' = grid this"
proof (cases "IsSameTile p q \<or> \<not> IsTileSameRowOrColumn p q
    \<or> \<not> IsPositionWithinBoard (grid this) p \<or> \<not> IsPositionWithinBoard (grid this) q")
  case True
  with assms show ?thesis by (auto simp: IsMoveLegal_oo_def split: if_splits)
next
  case False
  with assms have m: "MoveResultInMatches this p q = Inr (this', r)"
    by (simp add: IsMoveLegal_oo_def)
  then obtain g1 where g1: "SwapPieces (grid this) p q = Inr g1"
    by (auto simp: MoveResultInMatches_def SwapTilePieces_eq split: sum.splits)
  have "grid (fst (IsAnyMatch (this\<lparr>grid := g1\<rparr>))) = g1"
    by (simp add: IsAnyMatch_grid)
  with SwapPieces_back [OF g1] m g1 show ?thesis
    by (auto simp: MoveResultInMatches_def SwapTilePieces_eq split: prod.splits sum.splits)
qed

lemma IsSameTile_iff: "IsSameTile p q \<longleftrightarrow> p = q"
  by (cases p; cases q) (simp add: IsSameTile_def)

lemma IsTileSameRowOrColumn_iff:
  "IsTileSameRowOrColumn p q \<longleftrightarrow> \<not> (row p \<noteq> row q \<and> col p \<noteq> col q)"
  by (simp add: IsTileSameRowOrColumn_def)

lemma IsMoveLegal_oo_closed:
  assumes "IsSameTile p q \<or> \<not> IsTileSameRowOrColumn p q
    \<or> \<not> IsPositionWithinBoard (grid this) p \<or> \<not> IsPositionWithinBoard (grid this) q"
  shows "IsMoveLegal_oo this p q = Inr (this, False)"
  using assms unfolding IsMoveLegal_oo_def by auto

lemma IsMoveLegal_closed:
  assumes "p = q \<or> (row p \<noteq> row q \<and> col p \<noteq> col q)
    \<or> \<not> IsPositionOutsideBoard b p \<or> \<not> IsPositionOutsideBoard b q"
  shows "IsMoveLegal b p q = Inr (b, False)"
  using assms unfolding IsMoveLegal_def by (auto split: if_splits)

section \<open>The cascade of the object variant\<close>

text \<open>The refill pass of the object variant is the one of the functional variant.\<close>

lemma shiftElementsInColumn_loop_eq:
  "shiftElementsInColumn_loop b rs c = ShiftElementsInColumn_loop b rs c"
  by (induction rs arbitrary: b) (simp_all add: SwapTilePieces_eq split: sum.splits)

lemma shiftElementsInColumn_eq: "shiftElementsInColumn b r c = ShiftElementsInColumn b r c"
  by (simp add: shiftElementsInColumn_def ShiftElementsInColumn_def shiftElementsInColumn_loop_eq)

lemma setValueAtPosition_eq: "setValueAtPosition b p v = setValueOnPosition b p v"
  by (simp add: setValueAtPosition_def setValueOnPosition_def FindTilePieceAtPosition_eq)

lemma UpdateBoard_oo_cell_eq: "UpdateBoard_oo_cell nxt r c s = UpdateBoard_cell nxt r c s"
  by (simp add: UpdateBoard_oo_cell_def UpdateBoard_cell_def FindTilePieceAtPosition_eq
      shiftElementsInColumn_eq setValueAtPosition_eq
      split: prod.splits option.splits sum.splits)

lemma UpdateBoard_oo_cols_eq: "UpdateBoard_oo_cols nxt r cs s = UpdateBoard_cols nxt r cs s"
  by (induction cs arbitrary: s) (simp_all add: UpdateBoard_oo_cell_eq split: sum.splits)

lemma UpdateBoard_oo_rows_eq: "UpdateBoard_oo_rows nxt rs s = UpdateBoard_rows nxt rs s"
  by (induction rs arbitrary: s) (simp_all add: UpdateBoard_oo_cols_eq split: sum.splits)

lemma DestroyMatchedTilePieces_eq:
  "DestroyMatchedTilePieces rs cs b = MatchValuesRemoved rs cs b"
  by (simp add: DestroyMatchedTilePieces_def MatchValuesRemoved_def)

lemma scan_line_oo_matches_cong:
  assumes "\<And>e. matches (check1 e) = matches (check2 e)" "matches acc1 = matches acc2"
  shows "matches (scan_line_oo check1 ts acc1) = matches (scan_line_oo check2 ts acc2)"
  using assms(2)
proof (induction ts arbitrary: acc1 acc2)
  case Nil
  then show ?case by simp
next
  case (Cons t ts)
  show ?case
  proof (cases "position t \<in> set (map position (matches acc2))")
    case True
    with Cons.prems Cons.IH [OF Cons.prems] show ?thesis by simp
  next
    case False
    let ?a1 = "\<lparr>boardEffects = boardEffects acc1 @ boardEffects (check1 t),
               matches = matches acc1 @ matches (check1 t)\<rparr>"
    let ?a2 = "\<lparr>boardEffects = boardEffects acc2 @ boardEffects (check2 t),
               matches = matches acc2 @ matches (check2 t)\<rparr>"
    have "matches ?a1 = matches ?a2" using Cons.prems assms(1) by simp
    from Cons.IH [OF this] False Cons.prems show ?thesis by (simp add: Let_def)
  qed
qed

lemma scan_lines_oo_matches_cong:
  assumes "\<And>e. matches (check1 e) = matches (check2 e)" "matches acc1 = matches acc2"
  shows "matches (scan_lines_oo line check1 is acc1) = matches (scan_lines_oo line check2 is acc2)"
  using assms(2)
proof (induction "is" arbitrary: acc1 acc2)
  case Nil
  then show ?case by simp
next
  case (Cons i "is")
  have "matches (scan_line_oo check1 (line i) acc1) = matches (scan_line_oo check2 (line i) acc2)"
    using assms(1) Cons.prems by (rule scan_line_oo_matches_cong)
  from Cons.IH [OF this] show ?case by simp
qed

lemma FindRowMatches_matches_flag:
  "matches (FindRowMatches ev b) = matches (FindRowMatches False b)"
  unfolding FindRowMatches_def
  by (rule scan_lines_oo_matches_cong) (simp_all add: AllNeighboursInRowCheck_oo_def Let_def)

lemma FindColMatches_matches_flag:
  "matches (FindColMatches ev b) = matches (FindColMatches False b)"
  unfolding FindColMatches_def
  by (rule scan_lines_oo_matches_cong) (simp_all add: AllNeighboursInColCheck_oo_def Let_def)

lemma FindRowMatches_loud_consistent:
  "(matches (FindRowMatches True b) = []) = (boardEffects (FindRowMatches True b) = [])"
  unfolding FindRowMatches_def
  by (rule scan_lines_oo_invariant [where I = "\<lambda>r. (matches r = []) = (boardEffects r = [])"])
     (simp_all add: AllNeighboursInRowCheck_oo_def CallAllListenersOnMatch_def Let_def)

lemma FindColMatches_loud_consistent:
  "(matches (FindColMatches True b) = []) = (boardEffects (FindColMatches True b) = [])"
  unfolding FindColMatches_def
  by (rule scan_lines_oo_invariant [where I = "\<lambda>r. (matches r = []) = (boardEffects r = [])"])
     (simp_all add: AllNeighboursInColCheck_oo_def CallAllListenersOnMatch_def Let_def)

lemma no_match_found_oo_loud:
  "no_match_found_oo b \<longleftrightarrow>
     matches (FindRowMatches True b) = [] \<and> matches (FindColMatches True b) = []"
  unfolding no_match_found_oo_def
  using FindRowMatches_matches_flag [of True b] FindColMatches_matches_flag [of True b] by simp

lemma UpdateBoard_oo_pass_events:
  assumes "UpdateBoard_oo_pass nxt this = Inr this'"
  shows "events this' = events this @ [Refill]" and "isEventsEnabled this' = isEventsEnabled this"
  using assms
  by (auto simp: UpdateBoard_oo_pass_def Let_def emit_def split: sum.splits prod.splits)

lemma UpdateBoard_oo_pass_same_frame:
  assumes "UpdateBoard_oo_pass nxt this = Inr this'"
  shows "same_frame (grid this) (grid this')"
proof -
  from assms obtain b g where
    r: "UpdateBoard_rows nxt (map int [0..<nat (height (grid this))])
          (grid this, boardGenerator this) = Inr (b, g)" and
    t: "grid this' = b"
    by (auto simp: UpdateBoard_oo_pass_def Let_def emit_def UpdateBoard_oo_rows_eq
        split: sum.splits prod.splits)
  from UpdateBoard_rows_same_frame [OF r] t show ?thesis by simp
qed

lemma CheckBoard_oo_cascade:
  assumes "CheckBoard_oo nxt this = Some y"
  shows "isEventsEnabled this \<longrightarrow>
         (\<forall>res. y = Inr res \<longrightarrow>
            (\<exists>blocks. events res = events this @ concat blocks
               \<and> (\<forall>blk \<in> set blocks. pass_block_oo blk)
               \<and> (blocks = [] \<longleftrightarrow> no_match_found_oo (grid this))
               \<and> isEventsEnabled res \<and> same_frame (grid this) (grid res)))"
  using assms
proof (induction nxt this y rule: CheckBoard_oo.raw_induct [rotated 1, consumes 1])
  case (1 CheckBoard_oo' nxt this y)
  show ?case
  proof (intro impI allI)
    fix res
    assume ev: "isEventsEnabled this" and y: "y = Inr res"
    let ?rows = "FindRowMatches True (grid this)" and ?cols = "FindColMatches True (grid this)"
    show "\<exists>blocks. events res = events this @ concat blocks
               \<and> (\<forall>blk \<in> set blocks. pass_block_oo blk)
               \<and> (blocks = [] \<longleftrightarrow> no_match_found_oo (grid this))
               \<and> isEventsEnabled res \<and> same_frame (grid this) (grid res)"
    proof (cases "no_match_found_oo (grid this)")
      case True
      then have q: "matches ?rows = []" "matches ?cols = []"
        by (simp_all add: no_match_found_oo_loud)
      then have "boardEffects ?rows = []" "boardEffects ?cols = []"
        using FindRowMatches_loud_consistent [of "grid this"]
          FindColMatches_loud_consistent [of "grid this"] by simp_all
      with "1.hyps" ev y q have "res = this" by (simp add: Let_def emit_def)
      with True ev show ?thesis by (intro exI [of _ "[]"]) (simp add: same_frame_refl)
    next
      case False
      then have nq: "length (matches ?rows) \<noteq> 0 \<or> length (matches ?cols) \<noteq> 0"
        by (simp add: no_match_found_oo_loud)
      let ?blk = "boardEffects ?rows @ boardEffects ?cols @ [Refill]"
      from "1.hyps" ev y nq obtain this3 where
        pass: "UpdateBoard_oo_pass nxt
                 (this\<lparr>events := events this @ boardEffects ?rows @ boardEffects ?cols,
                       grid := DestroyMatchedTilePieces (matches ?rows) (matches ?cols)
                                 (grid this)\<rparr>) = Inr this3" and
        rec: "CheckBoard_oo' nxt this3 = Some (Inr res)"
        by (auto simp: Let_def emit_def split: sum.splits if_splits)
      from UpdateBoard_oo_pass_events [OF pass] ev
      have e3: "events this3 = events this @ ?blk" and f3: "isEventsEnabled this3"
        by (simp_all add: emit_def)
      have "same_frame (grid this)
              (DestroyMatchedTilePieces (matches ?rows) (matches ?cols) (grid this))"
        by (simp add: DestroyMatchedTilePieces_eq MatchValuesRemoved_same_frame)
      with UpdateBoard_oo_pass_same_frame [OF pass]
      have s3: "same_frame (grid this) (grid this3)"
        by (auto intro: same_frame_trans)
      from "1.IH" [OF rec] f3 obtain blocks where
        b: "events res = events this3 @ concat blocks" "\<forall>blk \<in> set blocks. pass_block_oo blk"
           "isEventsEnabled res" "same_frame (grid this3) (grid res)"
        by blast
      from s3 b(4) have "same_frame (grid this) (grid res)" by (rule same_frame_trans)
      have "boardEffects ?rows @ boardEffects ?cols \<noteq> []"
        using nq FindRowMatches_loud_consistent [of "grid this"]
          FindColMatches_loud_consistent [of "grid this"] by auto
      then have "pass_block_oo ?blk" unfolding pass_block_oo_def by blast
      with b e3 False \<open>same_frame (grid this) (grid res)\<close> show ?thesis
        by (intro exI [of _ "?blk # blocks"]) simp
    qed
  qed
qed


lemma IsMoveLegal_oo_TrueD:
  assumes "IsMoveLegal_oo this p q = Inr (this', True)" "isEventsEnabled this = False"
  shows "\<exists>g1. SwapTilePieces (grid this) p q = Inr g1 \<and> \<not> no_match_found_oo g1"
proof -
  from assms(1) have m: "MoveResultInMatches this p q = Inr (this', True)"
    by (auto simp: IsMoveLegal_oo_def split: if_splits)
  then obtain g1 where g1: "SwapTilePieces (grid this) p q = Inr g1"
    by (auto simp: MoveResultInMatches_def split: sum.splits)
  with m have "snd (IsAnyMatch (this\<lparr>grid := g1\<rparr>))"
    by (auto simp: MoveResultInMatches_def split: sum.splits prod.splits)
  with assms(2) have "\<not> no_match_found_oo g1"
    by (auto simp: IsAnyMatch_def Let_def emit_def no_match_found_oo_def split: if_splits)
  with g1 show ?thesis by blast
qed

lemma move_oo_illegal:
  assumes "IsMoveLegal_oo this p q = Inr (this', False)"
  shows "move_oo nxt this p q = Some (Inr this')"
  using assms by (simp add: move_oo_def)

lemma move_oo_legal:
  assumes "IsMoveLegal_oo this p q = Inr (this, True)" "isEventsEnabled this = False"
    and "move_oo nxt this p q = Some (Inr res)"
  shows "\<exists>blocks. blocks \<noteq> [] \<and> events res = events this @ concat blocks
           \<and> (\<forall>blk \<in> set blocks. pass_block_oo blk) \<and> \<not> isEventsEnabled res
           \<and> same_frame (grid this) (grid res)"
proof -
  from IsMoveLegal_oo_TrueD [OF assms(1,2)] obtain g1 where
    g1: "SwapTilePieces (grid this) p q = Inr g1" and nq: "\<not> no_match_found_oo g1"
    by blast
  let ?this1 = "this\<lparr>isEventsEnabled := True, grid := g1\<rparr>"
  from assms(1,3) g1 obtain res1 where
    c: "CheckBoard_oo nxt ?this1 = Some (Inr res1)" and
    res: "res = res1\<lparr>isEventsEnabled := False\<rparr>"
    by (auto simp: move_oo_def split: option.splits sum.splits)
  from CheckBoard_oo_cascade [OF c] nq obtain blocks where
    "events res1 = events this @ concat blocks" "\<forall>blk \<in> set blocks. pass_block_oo blk"
    "blocks \<noteq> []" "same_frame g1 (grid res1)"
    by auto
  moreover have "same_frame (grid this) g1"
    using g1 by (simp add: SwapTilePieces_eq SwapPieces_same_frame)
  ultimately show ?thesis
    using res by (intro exI [of _ blocks]) (auto intro: same_frame_trans)
qed

lemma pass_block_oo_last: "pass_block_oo blk \<Longrightarrow> blk \<noteq> [] \<and> last blk = Refill"
  by (auto simp: pass_block_oo_def)

lemma move_oo_blocks:
  assumes "wf_board (grid this)" "isEventsEnabled this = False"
    and "move_oo nxt this p q = Some (Inr res)"
  shows "\<exists>blocks. events res = events this @ concat blocks
           \<and> (\<forall>blk \<in> set blocks. pass_block_oo blk)
           \<and> (blocks \<noteq> [] \<longleftrightarrow> canMove_oo this p q = Inr (this, True))
           \<and> (blocks \<noteq> [] \<longrightarrow> concat blocks \<noteq> [] \<and> last (events res) = Refill)
           \<and> same_frame (grid this) (grid res)"
proof -
  from wf_IsMoveLegal_oo_total [OF assms(1,2)] obtain r where
    l: "IsMoveLegal_oo this p q = Inr (this, r)" by blast
  show ?thesis
  proof (cases r)
    case True
    with l have lt: "IsMoveLegal_oo this p q = Inr (this, True)" by simp
    from move_oo_legal [OF lt assms(2,3)] obtain blocks where
      b: "blocks \<noteq> []" "events res = events this @ concat blocks"
         "\<forall>blk \<in> set blocks. pass_block_oo blk" "same_frame (grid this) (grid res)"
      by blast
    from b(1,3) have "last blocks \<noteq> [] \<and> last (last blocks) = Refill"
      by (simp add: pass_block_oo_last)
    with b(1) have "concat blocks \<noteq> [] \<and> last (concat blocks) = Refill"
      by (cases blocks rule: rev_cases) simp_all
    with b lt show ?thesis
      by (intro exI [of _ blocks]) (simp add: canMove_oo_def)
  next
    case False
    with l assms(3) show ?thesis
      by (intro exI [of _ "[]"]) (simp add: canMove_oo_def move_oo_def same_frame_refl)
  qed
qed

lemma object_3x4_grid: "grid object_3x4 = fixture_3x4 \<and> isEventsEnabled object_3x4 = False"
  by code_simp

lemma object_3x4_move:
  "move_oo GeneratorFake_next (object_3x4\<lparr>boardGenerator := [''B'', ''C'', ''D'']\<rparr>)
     \<lparr>row = 0, col = 1\<rparr> \<lparr>row = 2, col = 1\<rparr>
   = Some (Inr \<lparr>grid = fixture_3x4_after, boardGenerator = [],
                 events = fixture_3x4_effects, isEventsEnabled = False\<rparr>)"
  by code_simp



section \<open>Reading a tile and validating a move\<close>

lemma fixture_2x3_created:
  "create CyclicGenerator_next (''ABC'', 0) 2 3 = Inr (fixture_2x3, (''ABC'', 0))"
  by code_simp

lemma fixture_2x3_vals:
  "map val (tilePieces fixture_2x3) = map Some [''A'', ''B'', ''C'', ''A'', ''B'', ''C'']"
  by code_simp

lemma object_4x4_grid: "grid object_4x4 = fixture_4x4"
  by code_simp

text \<open>
  C8: for every board and every position with \<open>row < 0\<close> or \<open>row \<ge> height\<close> or
  \<open>col < 0\<close> or \<open>col \<ge> width\<close>, the read operation (\<open>tilePiece\<close> of the functional
  variant, \<open>piece\<close> of the class) returns \<^verbatim>\<open>undefined\<close> and does not throw; for every
  position inside a well-formed board it returns the value of the one tile that has this
  position.
\<close>

theorem tilePiece_bounds:
  "(row p < 0 \<or> row p \<ge> height b \<or> col p < 0 \<or> col p \<ge> width b \<longrightarrow>
      tilePiece b p = Inr None \<and> piece b p = Inr None)
   \<and> (wf_board b \<and> 0 \<le> row p \<and> row p < height b \<and> 0 \<le> col p \<and> col p < width b \<longrightarrow>
        (\<exists>t \<in> set (tilePieces b).
           position t = p \<and> tilePiece b p = Inr (val t) \<and> piece b p = Inr (val t)
           \<and> (\<forall>t' \<in> set (tilePieces b). position t' = p \<longrightarrow> t' = t)))"
proof (intro conjI impI)
  assume "row p < 0 \<or> row p \<ge> height b \<or> col p < 0 \<or> col p \<ge> width b"
  then have "\<not> IsPositionOutsideBoard b p" by (auto simp: inside_iff)
  then show "tilePiece b p = Inr None" "piece b p = Inr None"
    by (simp_all add: piece_eq tilePiece_def)
next
  assume a: "wf_board b \<and> 0 \<le> row p \<and> row p < height b \<and> 0 \<le> col p \<and> col p < width b"
  then have wf: "wf_board b" and inside: "IsPositionOutsideBoard b p"
    by (simp_all add: inside_iff)
  let ?t = "tile_at b (row p) (col p)"
  have mem: "?t \<in> set (tilePieces b)" and "position ?t = \<lparr>row = row p, col = col p\<rparr>"
    using a wf_position_tile_at [of b "row p" "col p"] by simp_all
  then have pos: "position ?t = p" by (cases p) simp
  have rd: "tilePiece b p = Inr (val ?t)"
    using inside by (simp add: tilePiece_def wf_Find [OF wf])
  have uniq: "\<forall>t' \<in> set (tilePieces b). position t' = p \<longrightarrow> t' = ?t"
  proof (intro ballI impI)
    fix t' assume "t' \<in> set (tilePieces b)" "position t' = p"
    with pos have "position t' = position ?t" by (simp only:)
    with \<open>t' \<in> set (tilePieces b)\<close> mem show "t' = ?t"
      by (rule wf_unique_position [OF wf])
  qed
  have "position ?t = p \<and> tilePiece b p = Inr (val ?t) \<and> piece b p = Inr (val ?t)
           \<and> (\<forall>t' \<in> set (tilePieces b). position t' = p \<longrightarrow> t' = ?t)"
    using pos rd uniq by (simp only: piece_eq simp_thms)
  with mem show "\<exists>t \<in> set (tilePieces b).
           position t = p \<and> tilePiece b p = Inr (val t) \<and> piece b p = Inr (val t)
           \<and> (\<forall>t' \<in> set (tilePieces b). position t' = p \<longrightarrow> t' = t)"
    by (rule bexI [rotated])
qed

theorem tilePiece_bounds_witness:
  "wf_board fixture_2x3
   \<and> tilePiece fixture_2x3 \<lparr>row = 0, col = - 1\<rparr> = Inr None
   \<and> piece fixture_2x3 \<lparr>row = 3, col = 0\<rparr> = Inr None
   \<and> (\<exists>t \<in> set (tilePieces fixture_2x3).
         position t = \<lparr>row = 1, col = 1\<rparr> \<and> val t = Some ''A''
         \<and> tilePiece fixture_2x3 \<lparr>row = 1, col = 1\<rparr> = Inr (val t)
         \<and> piece fixture_2x3 \<lparr>row = 1, col = 1\<rparr> = Inr (val t))"
proof -
  have wf: "wf_board fixture_2x3" by code_simp
  have dims: "height fixture_2x3 = 3" "width fixture_2x3 = 2" by code_simp+
  have 1: "tilePiece fixture_2x3 \<lparr>row = 0, col = - 1\<rparr> = Inr None"
    using tilePiece_bounds [of "\<lparr>row = 0, col = - 1\<rparr>" fixture_2x3] by simp
  have 2: "piece fixture_2x3 \<lparr>row = 3, col = 0\<rparr> = Inr None"
    using tilePiece_bounds [of "\<lparr>row = 3, col = 0\<rparr>" fixture_2x3] dims by simp
  obtain t where t: "t \<in> set (tilePieces fixture_2x3)" "position t = \<lparr>row = 1, col = 1\<rparr>"
      "tilePiece fixture_2x3 \<lparr>row = 1, col = 1\<rparr> = Inr (val t)"
      "piece fixture_2x3 \<lparr>row = 1, col = 1\<rparr> = Inr (val t)"
    using tilePiece_bounds [of "\<lparr>row = 1, col = 1\<rparr>" fixture_2x3] wf dims by auto
  have "tilePiece fixture_2x3 \<lparr>row = 1, col = 1\<rparr> = Inr (Some ''A'')" by code_simp
  with t have "val t = Some ''A''" by simp
  with wf 1 2 t show ?thesis by blast
qed

text \<open>
  C3: \<open>canMove\<close> returns false, without throwing and on every board, whenever the two
  positions are equal, or share neither a row nor a column, or one of them is out of
  bounds; so does \<open>canMove\<close> of the class, which leaves its object as it was. Adjacency
  is not required: on the 4 by 4 board of the tests the swap of \<open>(2,1)\<close> and \<open>(0,1)\<close>,
  two rows apart, is legal in both variants.
\<close>

theorem canMove_fails_closed:
  "(p = q \<or> (row p \<noteq> row q \<and> col p \<noteq> col q)
      \<or> row p < 0 \<or> row p \<ge> height b \<or> col p < 0 \<or> col p \<ge> width b
      \<or> row q < 0 \<or> row q \<ge> height b \<or> col q < 0 \<or> col q \<ge> width b
     \<longrightarrow> canMove b p q = Inr (b, False))
   \<and> (p = q \<or> (row p \<noteq> row q \<and> col p \<noteq> col q)
      \<or> row p < 0 \<or> row p \<ge> height (grid this) \<or> col p < 0 \<or> col p \<ge> width (grid this)
      \<or> row q < 0 \<or> row q \<ge> height (grid this) \<or> col q < 0 \<or> col q \<ge> width (grid this)
     \<longrightarrow> canMove_oo this p q = Inr (this, False))
   \<and> canMove fixture_4x4 \<lparr>row = 2, col = 1\<rparr> \<lparr>row = 0, col = 1\<rparr> = Inr (fixture_4x4, True)
   \<and> canMove_oo object_4x4 \<lparr>row = 2, col = 1\<rparr> \<lparr>row = 0, col = 1\<rparr> = Inr (object_4x4, True)"
proof (intro conjI impI)
  assume "p = q \<or> (row p \<noteq> row q \<and> col p \<noteq> col q)
      \<or> row p < 0 \<or> row p \<ge> height b \<or> col p < 0 \<or> col p \<ge> width b
      \<or> row q < 0 \<or> row q \<ge> height b \<or> col q < 0 \<or> col q \<ge> width b"
  then have "p = q \<or> (row p \<noteq> row q \<and> col p \<noteq> col q)
      \<or> \<not> IsPositionOutsideBoard b p \<or> \<not> IsPositionOutsideBoard b q"
    unfolding inside_iff by linarith
  then show "canMove b p q = Inr (b, False)"
    unfolding canMove_def by (rule IsMoveLegal_closed)
next
  assume "p = q \<or> (row p \<noteq> row q \<and> col p \<noteq> col q)
      \<or> row p < 0 \<or> row p \<ge> height (grid this) \<or> col p < 0 \<or> col p \<ge> width (grid this)
      \<or> row q < 0 \<or> row q \<ge> height (grid this) \<or> col q < 0 \<or> col q \<ge> width (grid this)"
  then have "IsSameTile p q \<or> \<not> IsTileSameRowOrColumn p q
      \<or> \<not> IsPositionWithinBoard (grid this) p \<or> \<not> IsPositionWithinBoard (grid this) q"
    unfolding IsSameTile_iff IsTileSameRowOrColumn_iff IsPositionWithinBoard_eq inside_iff
    by linarith
  then show "canMove_oo this p q = Inr (this, False)"
    unfolding canMove_oo_def by (rule IsMoveLegal_oo_closed)
next
  show "canMove fixture_4x4 \<lparr>row = 2, col = 1\<rparr> \<lparr>row = 0, col = 1\<rparr> = Inr (fixture_4x4, True)"
    by code_simp
  show "canMove_oo object_4x4 \<lparr>row = 2, col = 1\<rparr> \<lparr>row = 0, col = 1\<rparr> = Inr (object_4x4, True)"
    by code_simp
qed

theorem canMove_fails_closed_witness:
  "canMove fixture_4x4 \<lparr>row = 0, col = 0\<rparr> \<lparr>row = 0, col = 0\<rparr> = Inr (fixture_4x4, False)
   \<and> canMove fixture_4x4 \<lparr>row = 0, col = 3\<rparr> \<lparr>row = 1, col = 2\<rparr> = Inr (fixture_4x4, False)
   \<and> canMove fixture_4x4 \<lparr>row = 3, col = 3\<rparr> \<lparr>row = - 1, col = 3\<rparr> = Inr (fixture_4x4, False)
   \<and> canMove_oo object_4x4 \<lparr>row = 2, col = 0\<rparr> \<lparr>row = 2, col = 4\<rparr> = Inr (object_4x4, False)"
proof -
  have dims: "height fixture_4x4 = 4" "width fixture_4x4 = 4" by code_simp+
  show ?thesis
    using canMove_fails_closed [of "\<lparr>row = 0, col = 0\<rparr>" "\<lparr>row = 0, col = 0\<rparr>" fixture_4x4 object_4x4]
      canMove_fails_closed [of "\<lparr>row = 0, col = 3\<rparr>" "\<lparr>row = 1, col = 2\<rparr>" fixture_4x4 object_4x4]
      canMove_fails_closed [of "\<lparr>row = 3, col = 3\<rparr>" "\<lparr>row = - 1, col = 3\<rparr>" fixture_4x4 object_4x4]
      canMove_fails_closed [of "\<lparr>row = 2, col = 0\<rparr>" "\<lparr>row = 2, col = 4\<rparr>" fixture_4x4 object_4x4]
      dims object_4x4_grid
    by simp
qed

text \<open>
  C4: whenever \<open>canMove\<close> returns, the board it leaves is the board it was given, for
  all positions; and on a well-formed board it always returns. (The trial swap is undone
  by swapping the same two tiles again.) Likewise for the class: the grid of the object
  is as it was, and between moves, when events are disabled, so is the whole object.
\<close>

theorem canMove_restores_board:
  "(canMove b p q = Inr (b', r) \<longrightarrow> b' = b)
   \<and> (wf_board b \<longrightarrow> (\<exists>r. canMove b p q = Inr (b, r)))
   \<and> (canMove_oo this p q = Inr (this', r') \<longrightarrow>
        grid this' = grid this \<and> (\<not> isEventsEnabled this \<longrightarrow> this' = this))
   \<and> (wf_board (grid this) \<and> \<not> isEventsEnabled this \<longrightarrow>
        (\<exists>r. canMove_oo this p q = Inr (this, r)))"
proof (intro conjI impI)
  show "b' = b" if "canMove b p q = Inr (b', r)"
    using that unfolding canMove_def by (rule IsMoveLegal_board)
  show "\<exists>r. canMove b p q = Inr (b, r)" if "wf_board b"
    using that unfolding canMove_def by (rule wf_IsMoveLegal_total)
  show "grid this' = grid this" if "canMove_oo this p q = Inr (this', r')"
    using that unfolding canMove_oo_def by (rule IsMoveLegal_oo_grid)
  show "this' = this" if "canMove_oo this p q = Inr (this', r')" "\<not> isEventsEnabled this"
    using that unfolding canMove_oo_def by (intro IsMoveLegal_oo_object) simp_all
  show "\<exists>r. canMove_oo this p q = Inr (this, r)"
    if "wf_board (grid this) \<and> \<not> isEventsEnabled this"
    using that unfolding canMove_oo_def by (intro wf_IsMoveLegal_oo_total) simp_all
qed

theorem canMove_restores_board_witness:
  "wf_board fixture_4x4
   \<and> canMove fixture_4x4 \<lparr>row = 2, col = 1\<rparr> \<lparr>row = 0, col = 1\<rparr> = Inr (fixture_4x4, True)
   \<and> canMove fixture_4x4 \<lparr>row = 1, col = 1\<rparr> \<lparr>row = 2, col = 1\<rparr> = Inr (fixture_4x4, False)
   \<and> canMove_oo object_4x4 \<lparr>row = 2, col = 1\<rparr> \<lparr>row = 0, col = 1\<rparr> = Inr (object_4x4, True)"
proof -
  have wf: "wf_board fixture_4x4" by code_simp
  have ev: "\<not> isEventsEnabled object_4x4" by code_simp
  obtain r1 where r1: "canMove fixture_4x4 \<lparr>row = 2, col = 1\<rparr> \<lparr>row = 0, col = 1\<rparr> = Inr (fixture_4x4, r1)"
    using canMove_restores_board [of fixture_4x4 "\<lparr>row = 2, col = 1\<rparr>" "\<lparr>row = 0, col = 1\<rparr>"
        fixture_4x4 True object_4x4 object_4x4 True] wf by blast
  obtain r2 where r2: "canMove fixture_4x4 \<lparr>row = 1, col = 1\<rparr> \<lparr>row = 2, col = 1\<rparr> = Inr (fixture_4x4, r2)"
    using canMove_restores_board [of fixture_4x4 "\<lparr>row = 1, col = 1\<rparr>" "\<lparr>row = 2, col = 1\<rparr>"
        fixture_4x4 True object_4x4 object_4x4 True] wf by blast
  obtain r3 where r3: "canMove_oo object_4x4 \<lparr>row = 2, col = 1\<rparr> \<lparr>row = 0, col = 1\<rparr> = Inr (object_4x4, r3)"
    using canMove_restores_board [of fixture_4x4 "\<lparr>row = 2, col = 1\<rparr>" "\<lparr>row = 0, col = 1\<rparr>"
        fixture_4x4 True object_4x4 object_4x4 True] wf ev object_4x4_grid by auto
  have "snd (projr (canMove fixture_4x4 \<lparr>row = 2, col = 1\<rparr> \<lparr>row = 0, col = 1\<rparr>))" by code_simp
  with r1 have "r1" by simp
  have "\<not> snd (projr (canMove fixture_4x4 \<lparr>row = 1, col = 1\<rparr> \<lparr>row = 2, col = 1\<rparr>))" by code_simp
  with r2 have "\<not> r2" by simp
  have "snd (projr (canMove_oo object_4x4 \<lparr>row = 2, col = 1\<rparr> \<lparr>row = 0, col = 1\<rparr>))" by code_simp
  with r3 have "r3" by simp
  with \<open>r1\<close> \<open>\<not> r2\<close> r1 r2 r3 wf show ?thesis by simp
qed


section \<open>Scenarios and the column scan\<close>

lemma fixture_3x4_created:
  "create GeneratorFake_next
        [''A'', ''B'', ''A'',
         ''D'', ''B'', ''C'',
         ''D'', ''A'', ''C'',
         ''C'', ''D'', ''D''] 3 4 = Inr (fixture_3x4, [])"
  by code_simp

text \<open>
  C9: on the 3 by 4 board created row by row from \<open>A,B,A / D,B,C / D,A,C / C,D,D\<close> the
  swap of \<open>(0,1)\<close> and \<open>(2,1)\<close> is legal, and with the generator prepared to yield
  \<open>B,C,D\<close> the move returns the board \<open>B,C,D / D,B,C / D,B,C / C,D,D\<close>; its effects are
  the match of the three \<open>A\<close> of row 0 and then a refill, which is the last one.
\<close>

theorem scenario_3x4:
  "canMove fixture_3x4 \<lparr>row = 0, col = 1\<rparr> \<lparr>row = 2, col = 1\<rparr> = Inr (fixture_3x4, True)
   \<and> move GeneratorFake_next (prepare [] [''B'', ''C'', ''D'']) fixture_3x4
        \<lparr>row = 0, col = 1\<rparr> \<lparr>row = 2, col = 1\<rparr>
      = Some (Inr ([],
          \<lparr>board = fst (projr (create GeneratorFake_next
               [''B'', ''C'', ''D'',
                ''D'', ''B'', ''C'',
                ''D'', ''B'', ''C'',
                ''C'', ''D'', ''D''] 3 4)),
           effects =
             [MatchEffect \<lparr>matched = Some ''A'',
                positions = [\<lparr>row = 0, col = 0\<rparr>, \<lparr>row = 0, col = 1\<rparr>, \<lparr>row = 0, col = 2\<rparr>]\<rparr>,
              Refill]\<rparr>))"
  by code_simp

text \<open>
  C5, at the row \<open>A,A,A,B,A,A,A\<close>: the row scan of the functional variant reports one
  match of \<open>A\<close>, the columns 0 to 2. The second run is not explored, its value being in
  \<open>checkedValues\<close> already. The row scan of the class, which skips a tile only when a
  match found so far includes it, reports both runs.
\<close>

theorem row_scan_skips_second_run:
  "map val (FindAllTilePiecesInRow fixture_7x1 0)
     = map Some [''A'', ''A'', ''A'', ''B'', ''A'', ''A'', ''A'']
   \<and> boardEffects (FindAllRowMatches fixture_7x1)
     = [MatchEffect \<lparr>matched = Some ''A'',
          positions = [\<lparr>row = 0, col = 0\<rparr>, \<lparr>row = 0, col = 1\<rparr>, \<lparr>row = 0, col = 2\<rparr>]\<rparr>]
   \<and> boardEffects (FindRowMatches True fixture_7x1)
     = [MatchEffect \<lparr>matched = Some ''A'',
          positions = [\<lparr>row = 0, col = 0\<rparr>, \<lparr>row = 0, col = 1\<rparr>, \<lparr>row = 0, col = 2\<rparr>]\<rparr>,
        MatchEffect \<lparr>matched = Some ''A'',
          positions = [\<lparr>row = 0, col = 4\<rparr>, \<lparr>row = 0, col = 5\<rparr>, \<lparr>row = 0, col = 6\<rparr>]\<rparr>]"
  by code_simp

text \<open>
  C2, at the 5 by 1 board \<open>C,C,A,C,A\<close> with the generator prepared to yield
  \<open>A,B,A,X,Y,Z\<close>: the swap of \<open>(0,2)\<close> and \<open>(0,3)\<close> is legal, and the move of the
  functional variant returns after one pass with the board \<open>A,B,A,A,A\<close>, whose columns 2
  to 4 are three equal tiles in a row, and leaves \<open>X,Y,Z\<close> in the queue. The move of the
  class, on the same board and queue, resolves this run in a second pass and leaves the
  board \<open>A,B,X,Y,Z\<close>.
\<close>

theorem move_leaves_a_run:
  "canMove fixture_5x1 \<lparr>row = 0, col = 2\<rparr> \<lparr>row = 0, col = 3\<rparr> = Inr (fixture_5x1, True)
   \<and> move GeneratorFake_next (prepare [] [''A'', ''B'', ''A'', ''X'', ''Y'', ''Z'']) fixture_5x1
        \<lparr>row = 0, col = 2\<rparr> \<lparr>row = 0, col = 3\<rparr>
      = Some (Inr ([''X'', ''Y'', ''Z''],
          \<lparr>board = fst (projr (create GeneratorFake_next [''A'', ''B'', ''A'', ''A'', ''A''] 5 1)),
           effects =
             [MatchEffect \<lparr>matched = Some ''C'',
                positions = [\<lparr>row = 0, col = 0\<rparr>, \<lparr>row = 0, col = 1\<rparr>, \<lparr>row = 0, col = 2\<rparr>]\<rparr>,
              Refill]\<rparr>))
   \<and> grid object_5x1 = fixture_5x1
   \<and> move_oo GeneratorFake_next
        (object_5x1\<lparr>boardGenerator := prepare [] [''A'', ''B'', ''A'', ''X'', ''Y'', ''Z'']\<rparr>)
        \<lparr>row = 0, col = 2\<rparr> \<lparr>row = 0, col = 3\<rparr>
      = Some (Inr
          \<lparr>grid = fst (projr (create GeneratorFake_next [''A'', ''B'', ''X'', ''Y'', ''Z''] 5 1)),
           boardGenerator = [],
           events =
             [MatchEffect \<lparr>matched = Some ''C'',
                positions = [\<lparr>row = 0, col = 0\<rparr>, \<lparr>row = 0, col = 1\<rparr>, \<lparr>row = 0, col = 2\<rparr>]\<rparr>,
              Refill,
              MatchEffect \<lparr>matched = Some ''A'',
                positions = [\<lparr>row = 0, col = 2\<rparr>, \<lparr>row = 0, col = 3\<rparr>, \<lparr>row = 0, col = 4\<rparr>]\<rparr>,
              Refill],
           isEventsEnabled = False\<rparr>)"
  by code_simp

text \<open>
  C7: the column scan visits the indices \<open>width, ..., 0\<close>. On a well-formed board the
  column \<open>width\<close> has no tiles, and the scan returns what the scan of the columns
  \<open>width - 1, ..., 0\<close> returns; in the class as in the functional variant.
\<close>

theorem column_scan_extra_index_inert:
  assumes "wf_board b"
  shows "FindAllTilePiecesInColumn b (width b) = []
         \<and> FindAllColumnMatches b = FindAllColumnMatches_valid b
         \<and> FindPiecesInCol b (width b) = []
         \<and> FindColMatches eventsEnabled b = FindColMatches_valid eventsEnabled b"
  using assms column_scan_oo_extra_index [OF assms, of eventsEnabled]
  by (simp add: FindAllColumnMatches_def FindAllColumnMatches_valid_def column_scan_indices
      wf_column_width_empty FindPiecesInCol_eq FindColMatches_valid_def)

theorem column_scan_extra_index_inert_witness:
  "wf_board fixture_3x4
   \<and> FindAllTilePiecesInColumn fixture_3x4 3 = []
   \<and> FindAllColumnMatches fixture_3x4 = FindAllColumnMatches_valid fixture_3x4
   \<and> FindColMatches True fixture_3x4 = FindColMatches_valid True fixture_3x4"
proof -
  have wf: "wf_board fixture_3x4" by code_simp
  have w: "width fixture_3x4 = 3" by code_simp
  from column_scan_extra_index_inert [OF wf, of True] wf w show ?thesis by simp
qed

section \<open>The effects of a move\<close>

text \<open>
  C1: on a well-formed board \<open>canMove\<close> returns a verdict. When the move is illegal,
  \<open>move\<close> returns the board and the generator as they were and the empty effect list.
  Whenever \<open>move\<close> returns, its effect list is empty if and only if the move was illegal,
  and the board it returns has the dimensions and positions of the board it was given.
  In the class, whose \<open>move\<close> delivers the events to the listeners: an illegal move
  leaves the object as it was, and a move that returns has delivered no event if and only
  if it was illegal.
\<close>

theorem move_effects_empty_iff_illegal:
  "(wf_board b \<longrightarrow>
      (\<exists>legal. canMove b p q = Inr (b, legal)
         \<and> (\<not> legal \<longrightarrow> move nxt g b p q = Some (Inr (g, \<lparr>board = b, effects = []\<rparr>)))
         \<and> (\<forall>g' res. move nxt g b p q = Some (Inr (g', res)) \<longrightarrow>
               (effects res = [] \<longleftrightarrow> \<not> legal) \<and> same_frame b (board res))))
   \<and> (wf_board (grid this) \<and> isEventsEnabled this = False \<longrightarrow>
      (\<exists>legal. canMove_oo this p q = Inr (this, legal)
         \<and> (\<not> legal \<longrightarrow> move_oo nxt' this p q = Some (Inr this))
         \<and> (\<forall>res. move_oo nxt' this p q = Some (Inr res) \<longrightarrow>
               (events res = events this \<longleftrightarrow> \<not> legal)
               \<and> same_frame (grid this) (grid res))))"
proof (intro conjI impI)
  assume wf: "wf_board b"
  from wf_IsMoveLegal_total [OF wf] obtain legal where
    l: "IsMoveLegal b p q = Inr (b, legal)" by blast
  show "\<exists>legal. canMove b p q = Inr (b, legal)
         \<and> (\<not> legal \<longrightarrow> move nxt g b p q = Some (Inr (g, \<lparr>board = b, effects = []\<rparr>)))
         \<and> (\<forall>g' res. move nxt g b p q = Some (Inr (g', res)) \<longrightarrow>
               (effects res = [] \<longleftrightarrow> \<not> legal) \<and> same_frame b (board res))"
  proof (cases legal)
    case False
    with l have "move nxt g b p q = Some (Inr (g, \<lparr>board = b, effects = []\<rparr>))"
      by (simp add: move_illegal)
    with l False show ?thesis
      by (intro exI [of _ False]) (simp add: canMove_def same_frame_refl)
  next
    case True
    with l have lt: "IsMoveLegal b p q = Inr (b, True)" by simp
    have "effects res \<noteq> [] \<and> same_frame b (board res)"
      if "move nxt g b p q = Some (Inr (g', res))" for g' res
    proof -
      from move_legal [OF lt wf that] obtain blocks where
        "blocks \<noteq> []" "effects res = concat blocks" "\<forall>blk \<in> set blocks. pass_block blk"
        "same_frame b (board res)"
        by blast
      then show ?thesis using concat_blocks_last(1) [of blocks] by simp
    qed
    with l True show ?thesis
      by (intro exI [of _ True]) (simp add: canMove_def)
  qed
next
  assume a: "wf_board (grid this) \<and> isEventsEnabled this = False"
  then have wf: "wf_board (grid this)" and off: "isEventsEnabled this = False" by simp_all
  from wf_IsMoveLegal_oo_total [OF wf off] obtain legal where
    l: "IsMoveLegal_oo this p q = Inr (this, legal)" by blast
  have "(events res = events this \<longleftrightarrow> \<not> legal) \<and> same_frame (grid this) (grid res)"
    if m: "move_oo nxt' this p q = Some (Inr res)" for res
  proof -
    from move_oo_blocks [OF wf off m] obtain blocks where
      "events res = events this @ concat blocks"
      "blocks \<noteq> [] \<longleftrightarrow> canMove_oo this p q = Inr (this, True)"
      "blocks \<noteq> [] \<longrightarrow> concat blocks \<noteq> []"
      "same_frame (grid this) (grid res)"
      by blast
    with l show ?thesis by (cases blocks) (auto simp: canMove_oo_def)
  qed
  moreover have "\<not> legal \<longrightarrow> move_oo nxt' this p q = Some (Inr this)"
    using l by (auto simp: move_oo_illegal)
  ultimately show "\<exists>legal. canMove_oo this p q = Inr (this, legal)
         \<and> (\<not> legal \<longrightarrow> move_oo nxt' this p q = Some (Inr this))
         \<and> (\<forall>res. move_oo nxt' this p q = Some (Inr res) \<longrightarrow>
               (events res = events this \<longleftrightarrow> \<not> legal)
               \<and> same_frame (grid this) (grid res))"
    using l by (intro exI [of _ legal]) (simp add: canMove_oo_def)
qed

theorem move_effects_empty_iff_illegal_witness:
  "wf_board fixture_3x4
   \<and> canMove fixture_3x4 \<lparr>row = 0, col = 1\<rparr> \<lparr>row = 2, col = 1\<rparr> = Inr (fixture_3x4, True)
   \<and> (\<exists>g' res. move GeneratorFake_next [''B'', ''C'', ''D''] fixture_3x4
                   \<lparr>row = 0, col = 1\<rparr> \<lparr>row = 2, col = 1\<rparr> = Some (Inr (g', res))
         \<and> effects res \<noteq> [])
   \<and> canMove fixture_3x4 \<lparr>row = 1, col = 1\<rparr> \<lparr>row = 2, col = 1\<rparr> = Inr (fixture_3x4, False)
   \<and> move GeneratorFake_next [''B'', ''C'', ''D''] fixture_3x4
        \<lparr>row = 1, col = 1\<rparr> \<lparr>row = 2, col = 1\<rparr>
      = Some (Inr ([''B'', ''C'', ''D''], \<lparr>board = fixture_3x4, effects = []\<rparr>))
   \<and> wf_board (grid object_3x4) \<and> isEventsEnabled object_3x4 = False
   \<and> canMove_oo object_3x4 \<lparr>row = 0, col = 1\<rparr> \<lparr>row = 2, col = 1\<rparr> = Inr (object_3x4, True)
   \<and> (\<exists>res. move_oo GeneratorFake_next (object_3x4\<lparr>boardGenerator := [''B'', ''C'', ''D'']\<rparr>)
                \<lparr>row = 0, col = 1\<rparr> \<lparr>row = 2, col = 1\<rparr> = Some (Inr res)
         \<and> events res \<noteq> [])
   \<and> canMove_oo object_3x4 \<lparr>row = 1, col = 1\<rparr> \<lparr>row = 2, col = 1\<rparr> = Inr (object_3x4, False)
   \<and> move_oo GeneratorFake_next object_3x4 \<lparr>row = 1, col = 1\<rparr> \<lparr>row = 2, col = 1\<rparr>
      = Some (Inr object_3x4)"
proof -
  let ?p = "\<lparr>row = 0, col = 1\<rparr>" and ?p' = "\<lparr>row = 1, col = 1\<rparr>" and ?q = "\<lparr>row = 2, col = 1\<rparr>"
  let ?obj = "object_3x4\<lparr>boardGenerator := [''B'', ''C'', ''D'']\<rparr>"
  have wf: "wf_board fixture_3x4" by code_simp
  have c1: "canMove fixture_3x4 ?p ?q = Inr (fixture_3x4, True)" by code_simp
  have c2: "canMove fixture_3x4 ?p' ?q = Inr (fixture_3x4, False)" by code_simp
  have wfo: "wf_board (grid object_3x4)" "isEventsEnabled object_3x4 = False"
    using wf by (simp_all add: object_3x4_grid)
  then have wft: "wf_board (grid ?obj)" "isEventsEnabled ?obj = False" by simp_all
  have ev: "events ?obj = []" by code_simp
  have o1: "canMove_oo ?obj ?p ?q = Inr (?obj, True)" by code_simp
  have o1': "canMove_oo object_3x4 ?p ?q = Inr (object_3x4, True)" by code_simp
  have o2: "canMove_oo object_3x4 ?p' ?q = Inr (object_3x4, False)" by code_simp
  obtain g' res where m: "move GeneratorFake_next [''B'', ''C'', ''D''] fixture_3x4 ?p ?q
                   = Some (Inr (g', res))"
    using fixture_3x4_move by blast
  obtain res' where m': "move_oo GeneratorFake_next ?obj ?p ?q = Some (Inr res')"
    using object_3x4_move by blast
  from move_effects_empty_iff_illegal [of fixture_3x4 ?p ?q GeneratorFake_next
      "[''B'', ''C'', ''D'']" ?obj GeneratorFake_next, THEN conjunct1] wf c1 m
  have 1: "effects res \<noteq> []" by auto
  from move_effects_empty_iff_illegal [of fixture_3x4 ?p' ?q GeneratorFake_next
      "[''B'', ''C'', ''D'']" object_3x4 GeneratorFake_next, THEN conjunct1] wf c2
  have 2: "move GeneratorFake_next [''B'', ''C'', ''D''] fixture_3x4 ?p' ?q
      = Some (Inr ([''B'', ''C'', ''D''], \<lparr>board = fixture_3x4, effects = []\<rparr>))"
    by auto
  from move_effects_empty_iff_illegal [of fixture_3x4 ?p ?q GeneratorFake_next
      "[''B'', ''C'', ''D'']" ?obj GeneratorFake_next, THEN conjunct2] wft o1 m' ev
  have 3: "events res' \<noteq> []" by auto
  from move_effects_empty_iff_illegal [of fixture_3x4 ?p' ?q GeneratorFake_next
      "[''B'', ''C'', ''D'']" object_3x4 GeneratorFake_next, THEN conjunct2] wfo o2
  have 4: "move_oo GeneratorFake_next object_3x4 ?p' ?q = Some (Inr object_3x4)"
    by auto
  from wf c1 c2 m 1 2 wfo o1' o2 m' 3 4 show ?thesis by blast
qed

text \<open>
  C6: the effects of a move that returns are the concatenation of blocks, one for each
  resolution pass: the row matches of the pass, then its column matches, then its one
  refill. There is a block exactly when the move was legal, and then the last effect is a
  refill. Likewise for the events the \<open>move\<close> of the class delivers.
\<close>

theorem move_effects_in_pass_order:
  "(wf_board b \<and> move nxt g b p q = Some (Inr (g', res)) \<longrightarrow>
      (\<exists>blocks. effects res = concat blocks
         \<and> (\<forall>blk \<in> set blocks. pass_block blk)
         \<and> (blocks \<noteq> [] \<longleftrightarrow> canMove b p q = Inr (b, True))
         \<and> (blocks \<noteq> [] \<longrightarrow> last (effects res) = Refill)))
   \<and> (wf_board (grid this) \<and> isEventsEnabled this = False
        \<and> move_oo nxt' this p q = Some (Inr res') \<longrightarrow>
      (\<exists>blocks. events res' = events this @ concat blocks
         \<and> (\<forall>blk \<in> set blocks. pass_block_oo blk)
         \<and> (blocks \<noteq> [] \<longleftrightarrow> canMove_oo this p q = Inr (this, True))
         \<and> (blocks \<noteq> [] \<longrightarrow> last (events res') = Refill)))"
proof (intro conjI impI)
  assume "wf_board b \<and> move nxt g b p q = Some (Inr (g', res))"
  then have "wf_board b" "move nxt g b p q = Some (Inr (g', res))" by simp_all
  then show "\<exists>blocks. effects res = concat blocks
         \<and> (\<forall>blk \<in> set blocks. pass_block blk)
         \<and> (blocks \<noteq> [] \<longleftrightarrow> canMove b p q = Inr (b, True))
         \<and> (blocks \<noteq> [] \<longrightarrow> last (effects res) = Refill)"
    by (rule move_blocks)
next
  assume "wf_board (grid this) \<and> isEventsEnabled this = False
        \<and> move_oo nxt' this p q = Some (Inr res')"
  then have "wf_board (grid this)" "isEventsEnabled this = False"
    "move_oo nxt' this p q = Some (Inr res')" by simp_all
  from move_oo_blocks [OF this] obtain blocks where
    "events res' = events this @ concat blocks" "\<forall>blk \<in> set blocks. pass_block_oo blk"
    "blocks \<noteq> [] \<longleftrightarrow> canMove_oo this p q = Inr (this, True)"
    "blocks \<noteq> [] \<longrightarrow> last (events res') = Refill"
    by blast
  then show "\<exists>blocks. events res' = events this @ concat blocks
         \<and> (\<forall>blk \<in> set blocks. pass_block_oo blk)
         \<and> (blocks \<noteq> [] \<longleftrightarrow> canMove_oo this p q = Inr (this, True))
         \<and> (blocks \<noteq> [] \<longrightarrow> last (events res') = Refill)"
    by blast
qed

theorem move_effects_in_pass_order_witness:
  "wf_board fixture_3x4
   \<and> (\<exists>g' res blocks.
         move GeneratorFake_next [''B'', ''C'', ''D''] fixture_3x4
           \<lparr>row = 0, col = 1\<rparr> \<lparr>row = 2, col = 1\<rparr> = Some (Inr (g', res))
         \<and> effects res = concat blocks \<and> blocks \<noteq> [] \<and> last (effects res) = Refill)
   \<and> wf_board (grid object_3x4) \<and> isEventsEnabled object_3x4 = False
   \<and> (\<exists>res blocks.
         move_oo GeneratorFake_next (object_3x4\<lparr>boardGenerator := [''B'', ''C'', ''D'']\<rparr>)
           \<lparr>row = 0, col = 1\<rparr> \<lparr>row = 2, col = 1\<rparr> = Some (Inr res)
         \<and> events res = concat blocks \<and> blocks \<noteq> [] \<and> last (events res) = Refill)"
proof -
  let ?p = "\<lparr>row = 0, col = 1\<rparr>" and ?q = "\<lparr>row = 2, col = 1\<rparr>"
  let ?obj = "object_3x4\<lparr>boardGenerator := [''B'', ''C'', ''D'']\<rparr>"
  have wf: "wf_board fixture_3x4" by code_simp
  have c1: "canMove fixture_3x4 ?p ?q = Inr (fixture_3x4, True)" by code_simp
  have wfo: "wf_board (grid object_3x4)" "isEventsEnabled object_3x4 = False"
    using wf by (simp_all add: object_3x4_grid)
  then have wft: "wf_board (grid ?obj)" "isEventsEnabled ?obj = False" by simp_all
  have ev: "events ?obj = []" by code_simp
  have o1: "canMove_oo ?obj ?p ?q = Inr (?obj, True)" by code_simp
  obtain g' res where m: "move GeneratorFake_next [''B'', ''C'', ''D''] fixture_3x4 ?p ?q
                   = Some (Inr (g', res))"
    using fixture_3x4_move by blast
  obtain res' where m': "move_oo GeneratorFake_next ?obj ?p ?q = Some (Inr res')"
    using object_3x4_move by blast
  note t = move_effects_in_pass_order [of fixture_3x4 GeneratorFake_next
      "[''B'', ''C'', ''D'']" ?p ?q g' res ?obj GeneratorFake_next res']
  from t [THEN conjunct1] wf m c1 obtain blocks where
    1: "effects res = concat blocks" "blocks \<noteq> []" "last (effects res) = Refill"
    by auto
  from t [THEN conjunct2] wft m' o1 ev obtain blocks' where
    2: "events res' = concat blocks'" "blocks' \<noteq> []" "last (events res') = Refill"
    by auto
  from wf m 1 wfo m' 2 show ?thesis by blast
qed

text \<open>
  C10: on a well-formed board every effect of the row scan is a match of at least three
  positions that are consecutive by increasing column from the first on, each inside the
  board and holding the matched value; likewise for the column scan and increasing rows.
  A tile that a scan explores is the first of its value in its line, and the backward walk
  from it (left, up) collects nothing. Every effect of a move that returns is a refill or
  a match listing such a run of positions.
\<close>

theorem match_effects_are_increasing_runs:
  assumes "wf_board b"
  shows "(\<forall>e \<in> set (boardEffects (FindAllRowMatches b)). axis_run RIGHT b e)
    \<and> (\<forall>e \<in> set (boardEffects (FindAllColumnMatches b)). axis_run DOWN b e)
    \<and> (\<forall>r pre e post.
          FindAllTilePiecesInRow b r = pre @ e # post \<and> val e \<notin> val ` set pre \<longrightarrow>
          CheckNeighbours b (FindTilePieceOnPosition b (FindNextPiecePosition e LEFT))
            [] (val e) LEFT = [])
    \<and> (\<forall>c pre e post.
          FindAllTilePiecesInColumn b c = pre @ e # post \<and> val e \<notin> val ` set pre \<longrightarrow>
          CheckNeighbours b (FindTilePieceOnPosition b (FindNextPiecePosition e UP))
            [] (val e) UP = [])
    \<and> (\<forall>g' res. move nxt g b p q = Some (Inr (g', res)) \<longrightarrow>
          (\<forall>e \<in> set (effects res). e = Refill \<or> match_along RIGHT e \<or> match_along DOWN e))"
proof (intro conjI allI impI)
  show "\<forall>e \<in> set (boardEffects (FindAllRowMatches b)). axis_run RIGHT b e"
    using assms by (rule FindAllRowMatches_runs)
  show "\<forall>e \<in> set (boardEffects (FindAllColumnMatches b)). axis_run DOWN b e"
    using assms by (rule FindAllColumnMatches_runs)
next
  fix r pre e post
  assume a: "FindAllTilePiecesInRow b r = pre @ e # post \<and> val e \<notin> val ` set pre"
  then have "e \<in> set (FindAllTilePiecesInRow b r)" by simp
  then have "e \<in> set (tilePieces b)" "row (position e) = r"
    by (simp_all add: FindAllTilePiecesInRow_def)
  with wf_tilePiece_member(1) [OF assms] have r: "0 \<le> r" "r < height b"
    by (auto simp: inside_iff)
  show "CheckNeighbours b (FindTilePieceOnPosition b (FindNextPiecePosition e LEFT))
            [] (val e) LEFT = []"
    using row_left_stop [OF assms r] a by (intro CheckNeighbours_stop) blast
next
  fix c pre e post
  assume a: "FindAllTilePiecesInColumn b c = pre @ e # post \<and> val e \<notin> val ` set pre"
  show "CheckNeighbours b (FindTilePieceOnPosition b (FindNextPiecePosition e UP))
            [] (val e) UP = []"
    using col_up_stop [OF assms] a by (intro CheckNeighbours_stop) blast
next
  fix g' res
  assume m: "move nxt g b p q = Some (Inr (g', res))"
  from move_blocks [OF assms m] obtain blocks where
    bl: "effects res = concat blocks" "\<forall>blk \<in> set blocks. pass_block blk" by blast
  show "\<forall>e \<in> set (effects res). e = Refill \<or> match_along RIGHT e \<or> match_along DOWN e"
  proof
    fix e assume "e \<in> set (effects res)"
    then obtain blk where blk: "blk \<in> set blocks" "e \<in> set blk" using bl(1) by auto
    with bl(2) have "pass_block blk" by blast
    then obtain rs cs where "blk = rs @ cs @ [Refill]"
      "\<forall>e \<in> set rs. match_along RIGHT e" "\<forall>e \<in> set cs. match_along DOWN e"
      unfolding pass_block_def by blast
    with blk(2) show "e = Refill \<or> match_along RIGHT e \<or> match_along DOWN e"
      by auto
  qed
qed

theorem match_effects_are_increasing_runs_witness:
  "wf_board fixture_3x4_swapped
   \<and> boardEffects (FindAllRowMatches fixture_3x4_swapped)
      = [MatchEffect \<lparr>matched = Some ''A'',
           positions = [\<lparr>row = 0, col = 0\<rparr>, \<lparr>row = 0, col = 1\<rparr>, \<lparr>row = 0, col = 2\<rparr>]\<rparr>]
   \<and> axis_run RIGHT fixture_3x4_swapped
        (MatchEffect \<lparr>matched = Some ''A'',
           positions = [\<lparr>row = 0, col = 0\<rparr>, \<lparr>row = 0, col = 1\<rparr>, \<lparr>row = 0, col = 2\<rparr>]\<rparr>)"
proof -
  have wf: "wf_board fixture_3x4_swapped" by code_simp
  have e: "boardEffects (FindAllRowMatches fixture_3x4_swapped)
      = [MatchEffect \<lparr>matched = Some ''A'',
           positions = [\<lparr>row = 0, col = 0\<rparr>, \<lparr>row = 0, col = 1\<rparr>, \<lparr>row = 0, col = 2\<rparr>]\<rparr>]"
    by code_simp
  from match_effects_are_increasing_runs [OF wf, of GeneratorFake_next "[]"
      "\<lparr>row = 0, col = 0\<rparr>" "\<lparr>row = 0, col = 0\<rparr>"] e wf
  show ?thesis by simp
qed

end
